theory Spec2Isabelle
  imports Complex_Main
begin

section \<open>Track distance of a map upload (postMap)\<close>

text \<open>
  A waypoint is a [latitude, longitude] pair. JavaScript numbers are modelled by the
  reals. Reading an array past its end gives \<open>undefined\<close>, written \<open>None\<close>.
\<close>

type_synonym waypoint = "real \<times> real"

definition elemAt :: "'a list \<Rightarrow> nat \<Rightarrow> 'a option" where
  "elemAt xs i = (if i < length xs then Some (xs ! i) else None)"

text \<open>
  \<open>calculateDistance\<close> lives in utils/parseQR, which is not among the sources: it is a
  parameter \<open>cd\<close> of the model. Its arguments may be \<open>undefined\<close>; a result \<open>None\<close>
  stands for no number (an exception or NaN).
\<close>

type_synonym distance_fn = "waypoint option \<Rightarrow> waypoint option \<Rightarrow> real option"

definition addDistance :: "real option \<Rightarrow> real option \<Rightarrow> real option" where
  "addDistance a b = (case a of None \<Rightarrow> None | Some x \<Rightarrow> (case b of None \<Rightarrow> None | Some y \<Rightarrow> Some (x + y)))"

text \<open>
  The loop \<open>for (let i = 0; i < trackCoords.length - 2; i += 1)
  trackDistance += calculateDistance(trackCoords[i], trackCoords[i + 1])\<close>.
\<close>

function trackLoop :: "distance_fn \<Rightarrow> waypoint list \<Rightarrow> nat \<Rightarrow> real option \<Rightarrow> real option" where
  "trackLoop cd trackCoords i trackDistance =
     (if int i < int (length trackCoords) - 2
      then trackLoop cd trackCoords (i + 1)
             (addDistance trackDistance (cd (elemAt trackCoords i) (elemAt trackCoords (i + 1))))
      else trackDistance)"
  by pat_completeness auto
termination
  by (relation "measure (\<lambda>(cd, trackCoords, i, trackDistance). length trackCoords - i)") auto

declare trackLoop.simps [simp del]

text \<open>
  \<open>trackDistance = calculateDistance(trackCoords[0], trackCoords[1])\<close>, then the loop.
\<close>

definition trackDistanceOf :: "distance_fn \<Rightarrow> waypoint list \<Rightarrow> real option" where
  "trackDistanceOf cd trackCoords =
     trackLoop cd trackCoords 0 (cd (elemAt trackCoords 0) (elemAt trackCoords 1))"

text \<open>
  \<open>qRData.sessions\<close> is absent for an image without a track: the distance stays 0.
  \<open>trackDistanceK = Math.floor(trackDistance) / 1000\<close>.
\<close>

definition trackDistanceK :: "distance_fn \<Rightarrow> waypoint list option \<Rightarrow> real option" where
  "trackDistanceK cd sessions =
     (case (case sessions of None \<Rightarrow> Some 0 | Some trackCoords \<Rightarrow> trackDistanceOf cd trackCoords) of
        None \<Rightarrow> None
      | Some trackDistance \<Rightarrow> Some (of_int (floor trackDistance) / 1000))"

text \<open>A distance function that is a number exactly on two defined waypoints.\<close>

definition onWaypoints :: "(waypoint \<Rightarrow> waypoint \<Rightarrow> real) \<Rightarrow> distance_fn" where
  "onWaypoints d a b =
     (case a of None \<Rightarrow> None | Some p \<Rightarrow> (case b of None \<Rightarrow> None | Some q \<Rightarrow> Some (d p q)))"

text \<open>The sum the specification asks for: every consecutive pair once.\<close>

fun pairwiseSum :: "(waypoint \<Rightarrow> waypoint \<Rightarrow> real) \<Rightarrow> waypoint list \<Rightarrow> real" where
  "pairwiseSum d (p # q # ws) = d p q + pairwiseSum d (q # ws)"
| "pairwiseSum d ws = 0"


section \<open>Documents and requests\<close>

text \<open>
  An ObjectID is modelled by its 24-digit hex string, so \<open>_id.toString()\<close> is the
  identity on \<open>oid\<close>.
\<close>

type_synonym oid = string

datatype userRole = Admin | Standard | Guest | Anonymous

datatype visibility = VisPublic | VisAll | VisClub | VisPrivate

datatype error = BadRequest | Unauthorized | NotFound | ServerError

text \<open>
  \<open>req.user\<close>: the role, \<open>_id.toString()\<close> and \<open>club._id.toString()\<close> of each club
  in \<open>memberOf\<close>.
\<close>

record reqUser =
  role :: userRole
  uid :: oid
  memberOf :: "oid list"

text \<open>
  The event document (models/oevent). The fields the controllers compute with are
  record fields; the remaining event-level fields (\<open>mapName\<close>, \<open>locPlace\<close>, ...) are
  kept by key in \<open>otherFields\<close>, with values of an arbitrary type \<open>'v\<close>. \<open>'r\<close> is the type
  of a runner entry: stored, or populated by the query.
\<close>

record ('v, 'r) oevent =
  e_id :: oid
  owner :: oid
  date :: string
  name :: string
  orisId :: "string option"
  organisedBy :: "oid list"
  linkedTo :: "oid list"
  otherFields :: "string \<rightharpoonup> 'v"
  runners :: "'r list"
  active :: bool

text \<open>
  A user document (models/user) as far as the read paths use it. The entries of
  \<open>memberOf\<close> have type \<open>'c\<close>: the ObjectIDs of the clubs in the stored document,
  club documents once the query has populated them.
\<close>

record 'c puser =
  pu_id :: oid
  displayName :: string
  pu_memberOf :: "'c list"

record club =
  c_id :: oid
  shortName :: string

text \<open>
  A runner entry of an event (models/oevent). \<open>user\<close> has type \<open>'u\<close>: in the stored
  entry the ObjectID of the user (an \<open>oid option\<close>; the schema requires it, but an entry
  can lose it, see updateEventRunner), and once populated the user document or
  \<open>null\<close>. \<open>'m\<close> is a map record, \<open>'x\<close> the rest of the entry (course and result
  fields, comments).
\<close>

record ('u, 'm, 'x) runnerEntry =
  user :: 'u
  visibility :: visibility
  maps :: "'m list"
  rest :: 'x

text \<open>The collections the read paths query.\<close>

record ('v, 'm, 'x) collections =
  db_events :: "('v, (oid option, 'm, 'x) runnerEntry) oevent list"
  db_users :: "oid puser list"
  db_clubs :: "club list"

section \<open>Population of the runners' users\<close>

text \<open>
  \<open>populate\<close> replaces a reference by the document with that id, or by \<open>null\<close> when
  there is none; in an array of references the ones without a document are left out.
  getEventList populates \<open>runners.user\<close> and leaves the user's \<open>memberOf\<close> as stored;
  getEvent populates \<open>runners.user\<close> and, in it, \<open>memberOf\<close>. Both populate \<open>owner\<close>,
  \<open>organisedBy\<close> and \<open>linkedTo\<close> as well, of which the model keeps the ids.
\<close>

definition populateUser :: "oid puser list \<Rightarrow> oid option \<Rightarrow> oid puser option" where
  "populateUser userDocs ref =
     (case ref of None \<Rightarrow> None | Some i \<Rightarrow> find (\<lambda>d. pu_id d = i) userDocs)"

definition populateMemberOf :: "club list \<Rightarrow> oid puser \<Rightarrow> club puser" where
  "populateMemberOf clubDocs d =
     \<lparr>pu_id = pu_id d, displayName = displayName d,
      pu_memberOf = List.map_filter (\<lambda>i. find (\<lambda>c. c_id c = i) clubDocs) (pu_memberOf d)\<rparr>"

definition populateRunner ::
  "(oid option \<Rightarrow> 'u) \<Rightarrow> (oid option, 'm, 'x) runnerEntry \<Rightarrow> ('u, 'm, 'x) runnerEntry" where
  "populateRunner populated runner =
     \<lparr>user = populated (user runner), visibility = visibility runner, maps = maps runner,
      rest = rest runner\<rparr>"

definition populateRunners ::
  "(oid option \<Rightarrow> 'u) \<Rightarrow> ('v, (oid option, 'm, 'x) runnerEntry) oevent
     \<Rightarrow> ('v, ('u, 'm, 'x) runnerEntry) oevent" where
  "populateRunners populated e =
     \<lparr>e_id = e_id e, owner = owner e, date = date e, name = name e, orisId = orisId e,
      organisedBy = organisedBy e, linkedTo = linkedTo e, otherFields = otherFields e,
      runners = map (populateRunner populated) (runners e), active = active e\<rparr>"

definition populatedForList ::
  "('v, 'm, 'x) collections \<Rightarrow> ('v, (oid option, 'm, 'x) runnerEntry) oevent
     \<Rightarrow> ('v, (oid puser option, 'm, 'x) runnerEntry) oevent" where
  "populatedForList db e = populateRunners (populateUser (db_users db)) e"

definition populatedForDetail ::
  "('v, 'm, 'x) collections \<Rightarrow> ('v, (oid option, 'm, 'x) runnerEntry) oevent
     \<Rightarrow> ('v, (club puser option, 'm, 'x) runnerEntry) oevent" where
  "populatedForDetail db e =
     populateRunners (\<lambda>ref. map_option (populateMemberOf (db_clubs db)) (populateUser (db_users db) ref)) e"

section \<open>Visibility of runners (getEvent, getEventList)\<close>

definition requestorId :: "reqUser \<Rightarrow> oid option" where
  "requestorId u = (if role u = Anonymous then None else Some (uid u))"

definition requestorClubs :: "reqUser \<Rightarrow> oid list option" where
  "requestorClubs u = (if role u = Anonymous then None else Some (memberOf u))"

text \<open>
  \<open>requestorClubs.includes(s)\<close>. \<open>requestorClubs\<close> is \<open>null\<close> only for the anonymous
  role, for which the line is not reached.
\<close>

definition clubsInclude :: "oid list option \<Rightarrow> string \<Rightarrow> bool" where
  "clubsInclude clubIdStrings s = (case clubIdStrings of None \<Rightarrow> False | Some cs \<Rightarrow> s \<in> set cs)"

text \<open>
  The test in the \<open>runners.map\<close> callback, the same text in both handlers:
  \<open>let canSee = false\<close> followed by the assignments \<open>if (...) canSee = true\<close>. For a
  standard or guest requester it reads \<open>runner.user._id\<close>, which throws a TypeError
  when the populated user is \<open>null\<close>: the result \<open>None\<close>. \<open>toString\<close> is
  \<open>clubId.toString()\<close> on an entry of the user's \<open>memberOf\<close>.
\<close>

definition canSee :: "('c \<Rightarrow> string) \<Rightarrow> reqUser \<Rightarrow> ('c puser option, 'm, 'x) runnerEntry \<Rightarrow> bool option" where
  "canSee toString u runner =
     (let requestorRole = role u;
          canSee1 = (requestorRole = Admin);
          canSee2 = (canSee1 \<or> visibility runner = VisPublic)
      in if requestorRole = Standard \<or> requestorRole = Guest
         then (case user runner of
                 None \<Rightarrow> None
               | Some runnerUser \<Rightarrow>
                   (let canSee3 = (canSee2 \<or> visibility runner = VisAll);
                        canSee4 = (canSee3 \<or> requestorId u = Some (pu_id runnerUser));
                        commonClubs = filter (\<lambda>clubId. clubsInclude (requestorClubs u) (toString clubId))
                                        (pu_memberOf runnerUser)
                    in Some (if visibility runner = VisClub then canSee4 \<or> length commonClubs > 0
                             else canSee4)))
         else Some canSee2)"

text \<open>\<open>selectedRunners.filter(runner => runner)\<close>: the entries that are not \<open>false\<close>.\<close>

fun truthyEntries :: "'a option list \<Rightarrow> 'a list" where
  "truthyEntries [] = []"
| "truthyEntries (None # xs) = truthyEntries xs"
| "truthyEntries (Some x # xs) = x # truthyEntries xs"

text \<open>
  \<open>array.map(callback)\<close> with a callback that may throw: the results in order, or
  \<open>None\<close> when a call throws.
\<close>

definition mapThrowing :: "('a \<Rightarrow> 'b option) \<Rightarrow> 'a list \<Rightarrow> 'b list option" where
  "mapThrowing callback xs = those (map callback xs)"

text \<open>
  The \<open>.then\<close> callback of getEvent on the event found: the callback of
  \<open>runners.map\<close> returns the runner or \<open>false\<close>. \<open>None\<close> when it throws.
\<close>

definition selectRunner ::
  "('c \<Rightarrow> string) \<Rightarrow> reqUser \<Rightarrow> ('c puser option, 'm, 'x) runnerEntry
     \<Rightarrow> ('c puser option, 'm, 'x) runnerEntry option option" where
  "selectRunner toString u runner =
     (case canSee toString u runner of
        None \<Rightarrow> None
      | Some seen \<Rightarrow> Some (if seen then Some runner else None))"

definition filteredEvent ::
  "('c \<Rightarrow> string) \<Rightarrow> reqUser \<Rightarrow> ('v, ('c puser option, 'm, 'x) runnerEntry) oevent
     \<Rightarrow> ('v, ('c puser option, 'm, 'x) runnerEntry) oevent option" where
  "filteredEvent toString u foundEvent =
     (if length (runners foundEvent) > 0
      then (case mapThrowing (selectRunner toString u) (runners foundEvent) of
              None \<Rightarrow> None
            | Some selectedRunners \<Rightarrow> Some (foundEvent\<lparr>runners := truthyEntries selectedRunners\<rparr>))
      else Some foundEvent)"

text \<open>\<open>ObjectID.isValid\<close> on a string: 12 characters, or 24 hex digits.\<close>

definition isHexDigit :: "char \<Rightarrow> bool" where
  "isHexDigit c = (c \<in> set ''0123456789abcdefABCDEF'')"

definition isValidObjectID :: "string \<Rightarrow> bool" where
  "isValidObjectID s = (length s = 12 \<or> (length s = 24 \<and> list_all isHexDigit s))"

text \<open>
  getEvent: \<open>Event.findOne({ _id: eventid, active: true })\<close> with the runners' users
  and their clubs populated. The entries of \<open>memberOf\<close> are then club documents, and
  \<open>clubId.toString()\<close> is the \<open>toString\<close> of a document of the object-document
  mapper, which is not among the sources: the parameter \<open>docToString\<close>. An error thrown
  in the callback is caught and answered with status 400. The response leaves out the
  \<open>active\<close> flag, which is true of every event found.
\<close>

definition getEvent ::
  "(club \<Rightarrow> string) \<Rightarrow> reqUser \<Rightarrow> string \<Rightarrow> ('v, 'm, 'x) collections
     \<Rightarrow> error + ('v, (club puser option, 'm, 'x) runnerEntry) oevent" where
  "getEvent docToString u eventid db =
     (if \<not> isValidObjectID eventid then Inl BadRequest
      else (case find (\<lambda>e. e_id e = eventid \<and> active e = True) (db_events db) of
              None \<Rightarrow> Inl NotFound
            | Some stored \<Rightarrow>
                (case filteredEvent docToString u (populatedForDetail db stored) of
                   None \<Rightarrow> Inl BadRequest
                 | Some filtered \<Rightarrow> Inr filtered)))"

text \<open>
  The summaries of getEventList. \<open>courseTitle\<close> is read from the populated user, which
  has no such field: it is always \<open>undefined\<close> and left out of the record. \<open>d_runners\<close>
  is \<open>None\<close> when the summary has no \<open>runners\<close> key.
\<close>

record runnerSummary =
  rs_user :: oid
  rs_displayName :: string
  numberMaps :: nat

record 'v eventDetails =
  d_id :: oid
  d_orisId :: "string option"
  d_date :: string
  d_name :: string
  d_mapName :: "'v option"
  d_locPlace :: "'v option"
  d_locCountry :: "'v option"
  d_locLat :: "'v option"
  d_locLong :: "'v option"
  d_locCornerSW :: "'v option"
  d_locCornerNE :: "'v option"
  d_organisedBy :: "oid list"
  d_linkedTo :: "oid list"
  totalRunners :: nat
  d_types :: "'v option"
  d_tags :: "'v option"
  d_runners :: "runnerSummary list option"

text \<open>
  The object returned for a runner the requester can see; \<open>runner.user._id\<close> throws
  when the populated user is \<open>null\<close>.
\<close>

definition runnerSummaryOf :: "('c puser option, 'm, 'x) runnerEntry \<Rightarrow> runnerSummary option" where
  "runnerSummaryOf runner =
     (case user runner of
        None \<Rightarrow> None
      | Some runnerUser \<Rightarrow>
          Some \<lparr>rs_user = pu_id runnerUser, rs_displayName = displayName runnerUser,
                numberMaps = length (maps runner)\<rparr>)"

text \<open>
  The callback of \<open>runners.map\<close> in getEventList. The entries of \<open>memberOf\<close> are
  ObjectIDs here, and \<open>clubId.toString()\<close> is the hex string: the id itself.
\<close>

definition summariseRunner ::
  "reqUser \<Rightarrow> (oid puser option, 'm, 'x) runnerEntry \<Rightarrow> runnerSummary option option" where
  "summariseRunner u runner =
     (case canSee (\<lambda>clubId. clubId) u runner of
        None \<Rightarrow> None
      | Some seen \<Rightarrow> if seen then map_option Some (runnerSummaryOf runner) else Some None)"

text \<open>The callback of \<open>events.map\<close> in getEventList; \<open>None\<close> when it throws.\<close>

definition eventDetailsOf ::
  "reqUser \<Rightarrow> ('v, (oid puser option, 'm, 'x) runnerEntry) oevent \<Rightarrow> 'v eventDetails option" where
  "eventDetailsOf u foundEvent =
     (let eventDetails =
            \<lparr>d_id = e_id foundEvent, d_orisId = orisId foundEvent, d_date = date foundEvent,
             d_name = name foundEvent, d_mapName = otherFields foundEvent ''mapName'',
             d_locPlace = otherFields foundEvent ''locPlace'',
             d_locCountry = otherFields foundEvent ''locCountry'',
             d_locLat = otherFields foundEvent ''locLat'', d_locLong = otherFields foundEvent ''locLong'',
             d_locCornerSW = otherFields foundEvent ''locCornerSW'',
             d_locCornerNE = otherFields foundEvent ''locCornerNE'',
             d_organisedBy = organisedBy foundEvent, d_linkedTo = linkedTo foundEvent,
             totalRunners = length (runners foundEvent),
             d_types = otherFields foundEvent ''types'', d_tags = otherFields foundEvent ''tags'',
             d_runners = None\<rparr>
      in if length (runners foundEvent) > 0
         then (case mapThrowing (summariseRunner u) (runners foundEvent) of
                 None \<Rightarrow> None
               | Some selectedRunners \<Rightarrow>
                   Some (eventDetails\<lparr>d_runners := Some (truthyEntries selectedRunners)\<rparr>))
         else Some eventDetails)"

text \<open>
  The search criteria of getEventList: an object built key by key. A condition is
  \<open>true\<close>, \<open>{ $regex }\<close>, a value, \<open>{ $elemMatch: { user } }\<close> or \<open>{ $gt, $lt }\<close>.
\<close>

datatype cond = CTrue | CRegex string | CValue string | CElemMatchUser string | CBetween real real

type_synonym criteria = "(string \<times> cond) list"

definition setKey :: "string \<Rightarrow> cond \<Rightarrow> criteria \<Rightarrow> criteria" where
  "setKey k c crit = (if k \<in> fst ` set crit then map (\<lambda>(k', c'). if k' = k then (k', c) else (k', c')) crit
                      else crit @ [(k, c)])"

definition validStringFilters :: "string list" where
  "validStringFilters = [''date'', ''name'', ''orisId'', ''mapName'', ''locName'', ''locPlace'',
     ''locRegions'', ''locCountry'', ''types'', ''tags'', ''website'', ''results'']"

definition validIdFilters :: "string list" where
  "validIdFilters = [''owner'', ''organisedBy'', ''linkedTo'', ''runners'']"

text \<open>
  The value of an event-level field of a stored event, by the key of a condition.
\<close>

datatype 'v fieldValue =
    StringField string
  | OptionalStringField "string option"
  | IdField oid
  | IdListField "oid list"
  | OtherField "'v option"

definition fieldOf :: "('v, 'r) oevent \<Rightarrow> string \<Rightarrow> 'v fieldValue" where
  "fieldOf e key =
     (if key = ''date'' then StringField (date e)
      else if key = ''name'' then StringField (name e)
      else if key = ''orisId'' then OptionalStringField (orisId e)
      else if key = ''owner'' then IdField (owner e)
      else if key = ''organisedBy'' then IdListField (organisedBy e)
      else if key = ''linkedTo'' then IdListField (linkedTo e)
      else OtherField (otherFields e key))"

text \<open>
  What the handler takes from its environment: whether \<open>new RegExp(s)\<close> succeeds,
  \<open>parseFloat\<close> (\<open>None\<close> for NaN), and the database's test of a condition on the value
  of an event-level field.
\<close>

record 'v queryEnv =
  regExpCompiles :: "string \<Rightarrow> bool"
  parseFloat :: "string option \<Rightarrow> real option"
  fieldSatisfies :: "cond \<Rightarrow> 'v fieldValue \<Rightarrow> bool"

text \<open>\<open>x || d\<close> on a number: \<open>d\<close> when \<open>x\<close> is NaN or 0.\<close>

definition orElse :: "real option \<Rightarrow> real \<Rightarrow> real" where
  "orElse x d = (case x of None \<Rightarrow> d | Some v \<Rightarrow> if v = 0 then d else v)"

text \<open>\<open>s.split('-')\<close>.\<close>

fun splitDash :: "string \<Rightarrow> string list" where
  "splitDash [] = [[]]"
| "splitDash (c # cs) =
     (if c = CHR ''-'' then [] # splitDash cs
      else (case splitDash cs of [] \<Rightarrow> [[c]] | w # ws \<Rightarrow> (c # w) # ws))"

definition nthOpt :: "'a list \<Rightarrow> nat \<Rightarrow> 'a option" where
  "nthOpt xs i = (if i < length xs then Some (xs ! i) else None)"

text \<open>The \<open>forEach\<close> over the keys of \<open>req.query\<close>.\<close>

definition filterStep :: "string \<times> string \<Rightarrow> criteria \<Rightarrow> criteria" where
  "filterStep kv eventSearchCriteria =
     (let key = fst kv; v = snd kv;
          c1 = (if key \<in> set validStringFilters then setKey key (CRegex v) eventSearchCriteria
                else eventSearchCriteria)
      in if key \<in> set validIdFilters
         then (if isValidObjectID v
               then (if key = ''runners'' then setKey ''runners'' (CElemMatchUser v) c1
                     else setKey key (CValue v) c1)
               else c1)
         else c1)"

definition eventSearchCriteria :: "'v queryEnv \<Rightarrow> (string \<times> string) list \<Rightarrow> criteria" where
  "eventSearchCriteria env query =
     (let c0 = [(''active'', CTrue)];
          c1 = foldl (\<lambda>c kv. filterStep kv c) c0 query;
          c2 = (case map_of query ''locLat'' of
                  None \<Rightarrow> c1
                | Some s \<Rightarrow> if s = [] then c1
                    else setKey ''locLat''
                           (CBetween (orElse (parseFloat env (nthOpt (splitDash s) 0)) 0)
                                     (orElse (parseFloat env (nthOpt (splitDash s) 1)) 90)) c1);
          c3 = (case map_of query ''locLong'' of
                  None \<Rightarrow> c2
                | Some s \<Rightarrow> if s = [] then c2
                    else setKey ''locLong''
                           (CBetween (orElse (parseFloat env (nthOpt (splitDash s) 0)) (- 180))
                                     (orElse (parseFloat env (nthOpt (splitDash s) 1)) 180)) c2)
      in c3)"

text \<open>
  A stored document matches the criteria when it satisfies every condition.
  \<open>active: true\<close> tests the flag; \<open>runners: { $elemMatch: { user } }\<close> holds when
  some stored runner entry, visible or not, has that user; every other condition is
  tested by the database on the field of its key.
\<close>

definition satisfiesCond ::
  "'v queryEnv \<Rightarrow> ('v, (oid option, 'm, 'x) runnerEntry) oevent \<Rightarrow> string \<times> cond \<Rightarrow> bool" where
  "satisfiesCond env e kc =
     (if kc = (''active'', CTrue) then active e = True
      else (case snd kc of
              CElemMatchUser i \<Rightarrow> list_ex (\<lambda>runner. user runner = Some i) (runners e)
            | c \<Rightarrow> fieldSatisfies env c (fieldOf e (fst kc))))"

definition matchesCriteria ::
  "'v queryEnv \<Rightarrow> criteria \<Rightarrow> ('v, (oid option, 'm, 'x) runnerEntry) oevent \<Rightarrow> bool" where
  "matchesCriteria env crit e = list_all (satisfiesCond env e) crit"

text \<open>
  getEventList. A query value that \<open>new RegExp\<close> rejects throws outside the promise
  chain: no list is returned. An error thrown in the callback of \<open>events.map\<close> is
  caught and answered with status 400.
\<close>

definition getEventList ::
  "'v queryEnv \<Rightarrow> reqUser \<Rightarrow> (string \<times> string) list \<Rightarrow> ('v, 'm, 'x) collections
     \<Rightarrow> error + 'v eventDetails list" where
  "getEventList env u query db =
     (if \<exists>kv \<in> set query. fst kv \<in> set validStringFilters \<and> \<not> regExpCompiles env (snd kv)
      then Inl ServerError
      else (case mapThrowing (\<lambda>stored. eventDetailsOf u (populatedForList db stored))
                   (filter (matchesCriteria env (eventSearchCriteria env query)) (db_events db)) of
              None \<Rightarrow> Inl BadRequest
            | Some eventsSummary \<Rightarrow> Inr eventsSummary))"

text \<open>
  The rule table of the specification (section 4.2), clause by clause, for a viewer with
  a role, an id and club ids and a runner entry with a visibility, the id of its user and
  the club ids of that user. An anonymous viewer has neither an id nor clubs.
\<close>

definition ruleTable :: "reqUser \<Rightarrow> visibility \<Rightarrow> oid \<Rightarrow> oid set \<Rightarrow> bool" where
  "ruleTable viewer runnerVisibility runnerUser runnerClubs =
     (role viewer = Admin
      \<or> runnerVisibility = VisPublic
      \<or> (role viewer \<noteq> Anonymous \<and> runnerVisibility = VisAll)
      \<or> (role viewer \<noteq> Anonymous \<and> uid viewer = runnerUser)
      \<or> (role viewer \<noteq> Anonymous \<and> runnerVisibility = VisClub
          \<and> set (memberOf viewer) \<inter> runnerClubs \<noteq> {}))"

section \<open>Stores that differ only in runners hidden from a viewer\<close>

text \<open>
  A stored runner entry is hidden from the viewer on a read path when the test of that
  path, on the entry as the path populates it, yields \<open>false\<close>.
\<close>

definition hiddenInDetail ::
  "(club \<Rightarrow> string) \<Rightarrow> reqUser \<Rightarrow> ('v, 'm, 'x) collections \<Rightarrow> (oid option, 'm, 'x) runnerEntry \<Rightarrow> bool" where
  "hiddenInDetail docToString u db runner =
     (canSee docToString u
        (populateRunner (\<lambda>ref. map_option (populateMemberOf (db_clubs db)) (populateUser (db_users db) ref)) runner)
      = Some False)"

definition hiddenInList ::
  "reqUser \<Rightarrow> ('v, 'm, 'x) collections \<Rightarrow> (oid option, 'm, 'x) runnerEntry \<Rightarrow> bool" where
  "hiddenInList u db runner =
     (canSee (\<lambda>clubId. clubId) u (populateRunner (populateUser (db_users db)) runner) = Some False)"

text \<open>
  Two stored events differ only in hidden runners: the event-level fields agree, and so
  do the runners that are not hidden, in order.
\<close>

definition differOnlyIn ::
  "('r \<Rightarrow> bool) \<Rightarrow> ('v, 'r) oevent \<Rightarrow> ('v, 'r) oevent \<Rightarrow> bool" where
  "differOnlyIn hidden e1 e2 =
     (e1\<lparr>runners := []\<rparr> = e2\<lparr>runners := []\<rparr>
      \<and> filter (\<lambda>r. \<not> hidden r) (runners e1) = filter (\<lambda>r. \<not> hidden r) (runners e2))"

definition sameNumberOfRunners :: "('v, 'r) oevent \<Rightarrow> ('v, 'r) oevent \<Rightarrow> bool" where
  "sameNumberOfRunners e1 e2 = (length (runners e1) = length (runners e2))"

text \<open>The query has a \<open>runners\<close> filter that the handler accepts.\<close>

definition filtersOnRunners :: "(string \<times> string) list \<Rightarrow> bool" where
  "filtersOnRunners query = list_ex (\<lambda>kv. fst kv = ''runners'' \<and> isValidObjectID (snd kv)) query"

section \<open>Sample documents\<close>

text \<open>Concrete viewers, users, clubs, runners and events, used to instantiate the theorems.\<close>

definition clubABC :: club where
  "clubABC = \<lparr>c_id = ''5c00000000000000000000c1'', shortName = ''ABC''\<rparr>"

definition clubXYZ :: club where
  "clubXYZ = \<lparr>c_id = ''5c00000000000000000000c2'', shortName = ''XYZ''\<rparr>"

definition sampleViewer :: reqUser where
  "sampleViewer = \<lparr>role = Standard, uid = ''5c0000000000000000000001'',
     memberOf = [''5c00000000000000000000c1'']\<rparr>"

definition anonymousViewer :: reqUser where
  "anonymousViewer = \<lparr>role = Anonymous, uid = [], memberOf = []\<rparr>"

definition vic :: "oid puser" where
  "vic = \<lparr>pu_id = ''5c0000000000000000000001'', displayName = ''Vic'',
     pu_memberOf = [''5c00000000000000000000c1'']\<rparr>"

definition ann :: "oid puser" where
  "ann = \<lparr>pu_id = ''5c0000000000000000000002'', displayName = ''Ann'',
     pu_memberOf = [''5c00000000000000000000c2'']\<rparr>"

definition bob :: "oid puser" where
  "bob = \<lparr>pu_id = ''5c0000000000000000000003'', displayName = ''Bob'',
     pu_memberOf = [''5c00000000000000000000c1'']\<rparr>"

definition cyd :: "oid puser" where
  "cyd = \<lparr>pu_id = ''5c0000000000000000000004'', displayName = ''Cyd'', pu_memberOf = []\<rparr>"

definition dan :: "oid puser" where
  "dan = \<lparr>pu_id = ''5c0000000000000000000005'', displayName = ''Dan'', pu_memberOf = []\<rparr>"

definition privateRunner :: "(oid option, unit, unit) runnerEntry" where
  "privateRunner = \<lparr>user = Some ''5c0000000000000000000002'', visibility = VisPrivate, maps = [],
     rest = ()\<rparr>"

definition ownPrivateRunner :: "(oid option, unit, unit) runnerEntry" where
  "ownPrivateRunner = \<lparr>user = Some ''5c0000000000000000000001'', visibility = VisPrivate, maps = [],
     rest = ()\<rparr>"

definition otherPrivateRunner :: "(oid option, unit, unit) runnerEntry" where
  "otherPrivateRunner = \<lparr>user = Some ''5c0000000000000000000005'', visibility = VisPrivate, maps = [],
     rest = ()\<rparr>"

definition clubRunner :: "(oid option, unit, unit) runnerEntry" where
  "clubRunner = \<lparr>user = Some ''5c0000000000000000000003'', visibility = VisClub, maps = [()],
     rest = ()\<rparr>"

definition publicRunner :: "(oid option, unit, unit) runnerEntry" where
  "publicRunner = \<lparr>user = Some ''5c0000000000000000000004'', visibility = VisPublic, maps = [],
     rest = ()\<rparr>"

text \<open>A runner entry that has lost its user.\<close>

definition userlessRunner :: "(oid option, unit, unit) runnerEntry" where
  "userlessRunner = \<lparr>user = None, visibility = VisAll, maps = [], rest = ()\<rparr>"

text \<open>The runner entries of Vic, Bob and Cyd as the detail query populates them.\<close>

definition ownPrivateRunnerInDetail :: "(club puser option, unit, unit) runnerEntry" where
  "ownPrivateRunnerInDetail =
     \<lparr>user = Some \<lparr>pu_id = ''5c0000000000000000000001'', displayName = ''Vic'',
                    pu_memberOf = [clubABC]\<rparr>,
      visibility = VisPrivate, maps = [], rest = ()\<rparr>"

definition clubRunnerInDetail :: "(club puser option, unit, unit) runnerEntry" where
  "clubRunnerInDetail =
     \<lparr>user = Some \<lparr>pu_id = ''5c0000000000000000000003'', displayName = ''Bob'',
                    pu_memberOf = [clubABC]\<rparr>,
      visibility = VisClub, maps = [()], rest = ()\<rparr>"

definition publicRunnerInDetail :: "(club puser option, unit, unit) runnerEntry" where
  "publicRunnerInDetail =
     \<lparr>user = Some \<lparr>pu_id = ''5c0000000000000000000004'', displayName = ''Cyd'', pu_memberOf = []\<rparr>,
      visibility = VisPublic, maps = [], rest = ()\<rparr>"

text \<open>
  A string form of a club document that shows its fields, as the \<open>toString\<close> of a
  document of the mapper does.
\<close>

definition renderedClub :: "club \<Rightarrow> string" where
  "renderedClub c = ''{ _id: '' @ c_id c @ '', shortName: '' @ shortName c @ '' }''"

definition springCup :: "'r list \<Rightarrow> bool \<Rightarrow> (unit, 'r) oevent" where
  "springCup rs a = \<lparr>e_id = ''5c00000000000000000000e1'', owner = ''5c0000000000000000000002'',
     date = ''2019-05-01'', name = ''Spring Cup'', orisId = None, organisedBy = [], linkedTo = [],
     otherFields = Map.empty, runners = rs, active = a\<rparr>"

definition sampleDb :: "(oid option, unit, unit) runnerEntry list \<Rightarrow> bool \<Rightarrow> (unit, unit, unit) collections" where
  "sampleDb rs a = \<lparr>db_events = [springCup rs a], db_users = [vic, ann, bob, cyd, dan], db_clubs = [clubABC, clubXYZ]\<rparr>"

definition springCupSummary :: "nat \<Rightarrow> runnerSummary list option \<Rightarrow> unit eventDetails" where
  "springCupSummary n rs =
     \<lparr>d_id = ''5c00000000000000000000e1'', d_orisId = None, d_date = ''2019-05-01'',
      d_name = ''Spring Cup'', d_mapName = None, d_locPlace = None, d_locCountry = None,
      d_locLat = None, d_locLong = None, d_locCornerSW = None, d_locCornerNE = None,
      d_organisedBy = [], d_linkedTo = [], totalRunners = n, d_types = None, d_tags = None,
      d_runners = rs\<rparr>"

definition sampleEnv :: "unit queryEnv" where
  "sampleEnv = \<lparr>regExpCompiles = (\<lambda>s. True), parseFloat = (\<lambda>s. None),
     fieldSatisfies = (\<lambda>c v. True)\<rparr>"

section \<open>The store and the requests that change it\<close>

text \<open>
  A runner entry as stored. \<open>user\<close> is required by the schema, but an update is not
  validated, so the field can be missing. The other fields of the entry (visibility,
  course and result fields, maps, comments) are kept by key.
\<close>

record 'v runner =
  r_user :: "oid option"
  r_fields :: "string \<rightharpoonup> 'v"

text \<open>The linked event document (models/linkedEvent).\<close>

record linkedEvent =
  l_id :: oid
  l_displayName :: string
  l_includes :: "oid list"

text \<open>
  The collections. Users and clubs are only looked up by id, so the store keeps their ids.
\<close>

record 'v store =
  eventDocs :: "('v, 'v runner) oevent list"
  linkedEventDocs :: "linkedEvent list"
  userIds :: "oid list"
  clubIds :: "oid list"

text \<open>
  The body of a create or update request for an event. \<open>organisedBy\<close> and \<open>linkedTo\<close>
  are \<open>Some\<close> when the key holds an array; \<open>b_other\<close> holds the remaining keys.
\<close>

record 'v eventBody =
  b_date :: "string option"
  b_name :: "string option"
  b_orisId :: "string option"
  b_organisedBy :: "string list option"
  b_linkedTo :: "string list option"
  b_owner :: "string option"
  b_other :: "(string \<times> 'v) list"

record linkBody =
  b_displayName :: "string option"
  b_includes :: "string list option"

text \<open>A JavaScript string is truthy when it is present and not empty.\<close>

definition truthy :: "string option \<Rightarrow> bool" where
  "truthy x = (case x of None \<Rightarrow> False | Some s \<Rightarrow> s \<noteq> [])"

text \<open>
  The date check \<open>eventDate.match(/[1|2][0-9]{3}-((0[13578]|1[02])-(0[1-9]|[12][0-9]|3[01])
  |(0[469]|11)-(0[1-9]|[12][0-9]|30)|02-(0[1-9]|[12][0-9]))/)\<close>. The pattern is not
  anchored: it matches when some position of the string starts a match. Every
  alternative is ten characters long.
\<close>

definition isDigit :: "char \<Rightarrow> bool" where
  "isDigit c = (c \<in> set ''0123456789'')"

definition day29 :: "char \<Rightarrow> char \<Rightarrow> bool" where
  "day29 a b = ((a = CHR ''0'' \<and> b \<in> set ''123456789'') \<or> (a \<in> set ''12'' \<and> isDigit b))"

definition day30 :: "char \<Rightarrow> char \<Rightarrow> bool" where
  "day30 a b = (day29 a b \<or> (a = CHR ''3'' \<and> b = CHR ''0''))"

definition day31 :: "char \<Rightarrow> char \<Rightarrow> bool" where
  "day31 a b = (day29 a b \<or> (a = CHR ''3'' \<and> b \<in> set ''01''))"

definition monthDay :: "char \<Rightarrow> char \<Rightarrow> char \<Rightarrow> char \<Rightarrow> char \<Rightarrow> bool" where
  "monthDay m1 m2 sep d1 d2 =
     (sep = CHR ''-'' \<and>
      ((((m1 = CHR ''0'' \<and> m2 \<in> set ''13578'') \<or> (m1 = CHR ''1'' \<and> m2 \<in> set ''02'')) \<and> day31 d1 d2)
       \<or> (((m1 = CHR ''0'' \<and> m2 \<in> set ''469'') \<or> (m1 = CHR ''1'' \<and> m2 = CHR ''1'')) \<and> day30 d1 d2)
       \<or> (m1 = CHR ''0'' \<and> m2 = CHR ''2'' \<and> day29 d1 d2)))"

fun dateAtStart :: "string \<Rightarrow> bool" where
  "dateAtStart (y1 # y2 # y3 # y4 # s1 # m1 # m2 # s2 # d1 # d2 # cs) =
     (y1 \<in> set ''1|2'' \<and> isDigit y2 \<and> isDigit y3 \<and> isDigit y4 \<and> s1 = CHR ''-''
      \<and> monthDay m1 m2 s2 d1 d2)"
| "dateAtStart cs = False"

fun dateMatches :: "string \<Rightarrow> bool" where
  "dateMatches [] = False"
| "dateMatches (c # cs) = (dateAtStart (c # cs) \<or> dateMatches cs)"

text \<open>
  The validators of controllers/validateIds: the candidates that are valid ObjectIDs of a
  document of the collection, in the order given, repeated when the request repeats them.
\<close>

definition validateIds :: "oid list \<Rightarrow> string list \<Rightarrow> oid list" where
  "validateIds existing candidates =
     truthyEntries (map (\<lambda>c. if isValidObjectID c \<and> c \<in> set existing then Some c else None) candidates)"

definition validateClubIds :: "'v store \<Rightarrow> string list \<Rightarrow> oid list" where
  "validateClubIds s candidateClubIds = validateIds (clubIds s) candidateClubIds"

definition validateEventIds :: "'v store \<Rightarrow> string list \<Rightarrow> oid list" where
  "validateEventIds s candidateEventIds = validateIds (map e_id (eventDocs s)) candidateEventIds"

definition validateLinkedEventIds :: "'v store \<Rightarrow> string list \<Rightarrow> oid list" where
  "validateLinkedEventIds s candidateIds = validateIds (map l_id (linkedEventDocs s)) candidateIds"

definition validateUserId :: "'v store \<Rightarrow> string \<Rightarrow> bool" where
  "validateUserId s candidateUserId = (isValidObjectID candidateUserId \<and> candidateUserId \<in> set (userIds s))"

text \<open>The update operators of the database on an array field, and \<open>updateMany\<close>.\<close>

definition addToSet :: "'a \<Rightarrow> 'a list \<Rightarrow> 'a list" where
  "addToSet x xs = (if x \<in> set xs then xs else xs @ [x])"

definition pull :: "'a \<Rightarrow> 'a list \<Rightarrow> 'a list" where
  "pull x xs = filter (\<lambda>y. y \<noteq> x) xs"

definition updateMany :: "('d \<Rightarrow> bool) \<Rightarrow> ('d \<Rightarrow> 'd) \<Rightarrow> 'd list \<Rightarrow> 'd list" where
  "updateMany matching change docs = map (\<lambda>d. if matching d then change d else d) docs"

definition replaceEvent :: "('v, 'r) oevent \<Rightarrow> ('v, 'r) oevent list \<Rightarrow> ('v, 'r) oevent list" where
  "replaceEvent e' docs = map (\<lambda>d. if e_id d = e_id e' then e' else d) docs"

definition replaceLinkedEvent :: "linkedEvent \<Rightarrow> linkedEvent list \<Rightarrow> linkedEvent list" where
  "replaceLinkedEvent l' docs = map (\<lambda>d. if l_id d = l_id l' then l' else d) docs"

text \<open>
  Identifiers at run time: an ObjectID object, or a string. The source compares them
  with \<open>includes\<close>. On a plain array that is SameValueZero: a string equals a string
  with the same characters, and an ObjectID equals no string and no other object. The
  array class of the object-document mapper, which is not among the sources, may instead
  compare through the hex form. Which of the two an array returned by \<open>.map\<close> on a
  document's array uses, and which a document's own array uses, are parameters of the
  model.
\<close>

datatype jsid = ObjectID oid | IdString string

fun idToString :: "jsid \<Rightarrow> string" where
  "idToString (ObjectID h) = h"
| "idToString (IdString s) = s"

datatype includesSem = SameValueZero | CastToString

fun sameValueZero :: "jsid \<Rightarrow> jsid \<Rightarrow> bool" where
  "sameValueZero (IdString a) (IdString b) = (a = b)"
| "sameValueZero a b = False"

fun includesId :: "includesSem \<Rightarrow> jsid list \<Rightarrow> jsid \<Rightarrow> bool" where
  "includesId SameValueZero xs v = list_ex (\<lambda>x. sameValueZero x v) xs"
| "includesId CastToString xs v = list_ex (\<lambda>x. idToString x = idToString v) xs"

record odm =
  mappedIncludes :: includesSem
  storedIncludes :: includesSem

text \<open>The whitelisted keys among the remaining keys of an event body.\<close>

definition otherValidFields :: "string list" where
  "otherValidFields = [''mapName'', ''locPlace'', ''locRegions'', ''locCountry'', ''locLat'',
     ''locLong'', ''types'', ''tags'', ''website'', ''results'']"

definition whitelisted :: "string list \<Rightarrow> (string \<times> 'v) list \<Rightarrow> (string \<times> 'v) list" where
  "whitelisted validFields body = filter (\<lambda>kv. fst kv \<in> set validFields) body"

definition countIf :: "bool \<Rightarrow> nat" where
  "countIf b = (if b then 1 else 0)"

subsection \<open>createEvent\<close>

text \<open>
  The schema declares \<open>trim: true\<close> on \<open>name\<close> and \<open>orisId\<close>: a document holds
  these strings without leading and trailing white space (\<open>String.prototype.trim\<close>;
  the white space characters of the model are the ASCII ones: space, tab, line feed,
  vertical tab, form feed, carriage return).
\<close>

definition isSpace :: "char \<Rightarrow> bool" where
  "isSpace c = (c \<in> set [CHR '' '', CHR 0x09, CHR 0x0A, CHR 0x0B, CHR 0x0C, CHR 0x0D])"

definition trim :: "string \<Rightarrow> string" where
  "trim s = rev (dropWhile isSpace (rev (dropWhile isSpace s)))"

text \<open>
  The name in the filter of \<open>Event.findOne({ date: eventDate, name: eventName })\<close>.
  Whether the object-document mapper, which is not among the sources, applies the
  schema's setters (here \<open>trim\<close>) to the values of a query filter depends on its version
  and options: \<open>settersOnQuery\<close> is a parameter of the model. The date has no setter.
\<close>

definition nameInQuery :: "bool \<Rightarrow> string \<Rightarrow> string" where
  "nameInQuery settersOnQuery eventName = (if settersOnQuery then trim eventName else eventName)"

text \<open>
  \<open>newEvent.save()\<close> is rejected when the document fails the schema's validation: the
  required \<open>name\<close> is empty once trimmed, or a field whose value the model does not
  interpret is invalid (a parameter \<open>schemaOk\<close>). It is rejected as well when the id is
  taken, or when the \<open>orisId\<close> is that of another event (the unique index).
  \<open>newId\<close> is the ObjectID generated for the document.
\<close>

definition saveRejected ::
  "(('v, 'v runner) oevent \<Rightarrow> bool) \<Rightarrow> ('v, 'v runner) oevent \<Rightarrow> 'v store \<Rightarrow> bool" where
  "saveRejected schemaOk newEvent s =
     (name newEvent = []
      \<or> \<not> schemaOk newEvent
      \<or> e_id newEvent \<in> set (map e_id (eventDocs s))
      \<or> (orisId newEvent \<noteq> None \<and> orisId newEvent \<in> set (map orisId (eventDocs s))))"

text \<open>
  \<open>new Event(fieldsToCreate)\<close>: the owner is the creator, the whitelisted keys of the
  body, with \<open>name\<close> and \<open>orisId\<close> trimmed by the schema, and the validated
  \<open>organisedBy\<close> and \<open>linkedTo\<close> when the body holds an array under the key.
\<close>

definition eventToCreate ::
  "reqUser \<Rightarrow> 'v eventBody \<Rightarrow> oid \<Rightarrow> 'v store \<Rightarrow> string \<Rightarrow> string \<Rightarrow> ('v, 'v runner) oevent" where
  "eventToCreate u body newId s eventDate eventName =
     (let clubIdsChecked = map_option (validateClubIds s) (b_organisedBy body);
          linkedEventIds = map_option (validateLinkedEventIds s) (b_linkedTo body)
      in \<lparr>e_id = newId, owner = uid u, date = eventDate, name = trim eventName,
          orisId = map_option trim (b_orisId body),
          organisedBy = (case clubIdsChecked of None \<Rightarrow> [] | Some cs \<Rightarrow> cs),
          linkedTo = (case linkedEventIds of None \<Rightarrow> [] | Some ls \<Rightarrow> ls),
          otherFields = map_of (whitelisted otherValidFields (b_other body)),
          runners = [], active = True\<rparr>)"

definition createEvent ::
  "bool \<Rightarrow> (('v, 'v runner) oevent \<Rightarrow> bool) \<Rightarrow> reqUser \<Rightarrow> 'v eventBody \<Rightarrow> oid \<Rightarrow> 'v store
     \<Rightarrow> (error + ('v, 'v runner) oevent) \<times> 'v store" where
  "createEvent settersOnQuery schemaOk u body newId s =
     (if role u = Guest then (Inl Unauthorized, s)
      else if \<not> truthy (b_date body) \<or> \<not> truthy (b_name body) then (Inl BadRequest, s)
      else (case (b_date body, b_name body) of
          (Some eventDate, Some eventName) \<Rightarrow>
            if \<not> dateMatches eventDate then (Inl BadRequest, s)
            else (case find (\<lambda>e. date e = eventDate \<and> name e = nameInQuery settersOnQuery eventName)
                         (eventDocs s) of
                Some existingEvent \<Rightarrow> (Inl BadRequest, s)
              | None \<Rightarrow>
                  (let newEvent = eventToCreate u body newId s eventDate eventName
                   in if saveRejected schemaOk newEvent s then (Inl BadRequest, s)
                      else (Inr newEvent,
                            s\<lparr>eventDocs := eventDocs s @ [newEvent],
                              linkedEventDocs :=
                                updateMany (\<lambda>l. l_id l \<in> set (linkedTo newEvent))
                                  (\<lambda>l. l\<lparr>l_includes := addToSet newId (l_includes l)\<rparr>)
                                  (linkedEventDocs s)\<rparr>)))
        | _ \<Rightarrow> (Inl BadRequest, s)))"

subsection \<open>createEventLink\<close>

definition createEventLink ::
  "reqUser \<Rightarrow> linkBody \<Rightarrow> oid \<Rightarrow> 'v store \<Rightarrow> (error + linkedEvent) \<times> 'v store" where
  "createEventLink u body newId s =
     (if role u = Guest then (Inl Unauthorized, s)
      else (case b_displayName body of
          None \<Rightarrow> (Inl BadRequest, s)
        | Some eventLinkName \<Rightarrow>
            if eventLinkName = [] then (Inl BadRequest, s)
            else (case find (\<lambda>l. l_displayName l = eventLinkName) (linkedEventDocs s) of
                Some existingLinkedEvent \<Rightarrow> (Inl BadRequest, s)
              | None \<Rightarrow>
                  (case map_option (validateEventIds s) (b_includes body) of
                     None \<Rightarrow> (Inl BadRequest, s)
                   | Some eventIds \<Rightarrow>
                       (let newLinkedEvent =
                              \<lparr>l_id = newId, l_displayName = eventLinkName, l_includes = eventIds\<rparr>
                        in if newId \<in> set (map l_id (linkedEventDocs s)) then (Inl BadRequest, s)
                           else (Inr newLinkedEvent,
                                 s\<lparr>linkedEventDocs := linkedEventDocs s @ [newLinkedEvent],
                                   eventDocs :=
                                     updateMany (\<lambda>e. e_id e \<in> set eventIds)
                                       (\<lambda>e. e\<lparr>linkedTo := addToSet newId (linkedTo e)\<rparr>)
                                       (eventDocs s)\<rparr>))))))"

subsection \<open>updateEvent\<close>

text \<open>
  \<open>runnerIds = eventToUpdate.runners.map(runner => runner.user)\<close>: ObjectIDs, not
  strings; an entry without a user gives \<open>undefined\<close>, which \<open>includes\<close> never finds.
\<close>

definition runnerObjectIds :: "'v runner list \<Rightarrow> jsid list" where
  "runnerObjectIds rs = concat (map (\<lambda>r. case r_user r of None \<Rightarrow> [] | Some i \<Rightarrow> [ObjectID i]) rs)"

definition allowedToUpdate :: "odm \<Rightarrow> reqUser \<Rightarrow> ('v, 'v runner) oevent \<Rightarrow> bool" where
  "allowedToUpdate k u eventToUpdate =
     (let requestorRole = role u; requestorId = uid u;
          runnerIds = runnerObjectIds (runners eventToUpdate)
      in requestorRole = Admin
         \<or> (requestorRole = Standard \<and> requestorId = owner eventToUpdate)
         \<or> (requestorRole = Standard \<and> includesId (mappedIncludes k) runnerIds (IdString requestorId)))"

text \<open>
  The reference delta of an update. \<open>current\<close> is the stored list; \<open>validated\<close> is the
  validated list of the request, \<open>None\<close> when the request has no array under the key.
  \<open>currentStrings\<close> is \<open>stored.map(el => el.toString())\<close>; \<open>newRefs\<close> is
  \<open>validated.map(el => el.toString())\<close>, a plain array, or else the stored array itself.
\<close>

definition currentStrings :: "oid list \<Rightarrow> jsid list" where
  "currentStrings current = map IdString current"

definition newRefs :: "oid list \<Rightarrow> oid list option \<Rightarrow> jsid list" where
  "newRefs current validated =
     (case validated of Some ids \<Rightarrow> map IdString ids | None \<Rightarrow> map ObjectID current)"

definition newRefsSem :: "odm \<Rightarrow> oid list option \<Rightarrow> includesSem" where
  "newRefsSem k validated = (case validated of Some ids \<Rightarrow> SameValueZero | None \<Rightarrow> storedIncludes k)"

definition addedIds :: "odm \<Rightarrow> oid list \<Rightarrow> oid list option \<Rightarrow> jsid list" where
  "addedIds k current validated =
     filter (\<lambda>i. \<not> includesId (mappedIncludes k) (currentStrings current) i) (newRefs current validated)"

definition removedIds :: "odm \<Rightarrow> oid list \<Rightarrow> oid list option \<Rightarrow> jsid list" where
  "removedIds k current validated =
     filter (\<lambda>i. \<not> includesId (newRefsSem k validated) (newRefs current validated) i)
       (currentStrings current)"

text \<open>
  The mirror step: \<open>updateMany({ _id: { $in: added } }, { $addToSet })\<close>, then
  \<open>updateMany({ _id: { $in: removed } }, { $pull })\<close>. The query casts every id of
  \<open>$in\<close> to an ObjectID.
\<close>

definition mirrorIncludes :: "jsid list \<Rightarrow> jsid list \<Rightarrow> oid \<Rightarrow> linkedEvent list \<Rightarrow> linkedEvent list" where
  "mirrorIncludes added removed eventId docs =
     updateMany (\<lambda>l. l_id l \<in> set (map idToString removed))
       (\<lambda>l. l\<lparr>l_includes := pull eventId (l_includes l)\<rparr>)
       (updateMany (\<lambda>l. l_id l \<in> set (map idToString added))
          (\<lambda>l. l\<lparr>l_includes := addToSet eventId (l_includes l)\<rparr>) docs)"

definition mirrorLinkedTo ::
  "jsid list \<Rightarrow> jsid list \<Rightarrow> oid \<Rightarrow> ('v, 'r) oevent list \<Rightarrow> ('v, 'r) oevent list" where
  "mirrorLinkedTo added removed linkId docs =
     updateMany (\<lambda>e. e_id e \<in> set (map idToString removed))
       (\<lambda>e. e\<lparr>linkedTo := pull linkId (linkedTo e)\<rparr>)
       (updateMany (\<lambda>e. e_id e \<in> set (map idToString added))
          (\<lambda>e. e\<lparr>linkedTo := addToSet linkId (linkedTo e)\<rparr>) docs)"

text \<open>\<open>$set: fieldsToUpdate\<close> on the event.\<close>

definition setEventFields ::
  "'v eventBody \<Rightarrow> oid list option \<Rightarrow> oid list option \<Rightarrow> bool \<Rightarrow> ('v, 'r) oevent \<Rightarrow> ('v, 'r) oevent" where
  "setEventFields body clubIdsChecked linkedEventIds ownerId e =
     e\<lparr>date := (case b_date body of None \<Rightarrow> date e | Some d \<Rightarrow> d),
       name := (case b_name body of None \<Rightarrow> name e | Some n \<Rightarrow> n),
       otherFields := otherFields e ++ map_of (whitelisted otherValidFields (b_other body)),
       organisedBy := (case clubIdsChecked of None \<Rightarrow> organisedBy e | Some cs \<Rightarrow> cs),
       linkedTo := (case linkedEventIds of None \<Rightarrow> linkedTo e | Some ls \<Rightarrow> ls),
       owner := (case b_owner body of None \<Rightarrow> owner e | Some w \<Rightarrow> if ownerId then w else owner e)\<rparr>"

definition numberOfEventFields ::
  "'v eventBody \<Rightarrow> oid list option \<Rightarrow> oid list option \<Rightarrow> bool \<Rightarrow> nat" where
  "numberOfEventFields body clubIdsChecked linkedEventIds ownerId =
     countIf (b_date body \<noteq> None) + countIf (b_name body \<noteq> None)
     + length (remdups (map fst (whitelisted otherValidFields (b_other body))))
     + countIf (clubIdsChecked \<noteq> None) + countIf (linkedEventIds \<noteq> None) + countIf ownerId"

text \<open>
  updateEvent. The checks made before the event is loaded: the guest guard, the id, the
  date format when a date is given, and \<open>Event.findOne({ date, name })\<close> finding another
  event. \<open>castOk\<close> says whether the database accepts the \<open>$set\<close> (the values of the
  remaining keys can fail to cast); a rejected update changes nothing.
\<close>

definition updateRequestError :: "reqUser \<Rightarrow> string \<Rightarrow> 'v eventBody \<Rightarrow> 'v store \<Rightarrow> error option" where
  "updateRequestError u eventid body s =
     (if role u = Guest then Some Unauthorized
      else if \<not> isValidObjectID eventid then Some BadRequest
      else if truthy (b_date body) \<and> \<not> dateMatches (case b_date body of None \<Rightarrow> [] | Some d \<Rightarrow> d)
        then Some BadRequest
      else if (case find (\<lambda>e. Some (date e) = b_date body \<and> Some (name e) = b_name body) (eventDocs s) of
                 None \<Rightarrow> False | Some existingEvent \<Rightarrow> e_id existingEvent \<noteq> eventid)
        then Some BadRequest
      else None)"

definition updateEvent ::
  "odm \<Rightarrow> ('v eventBody \<Rightarrow> bool) \<Rightarrow> reqUser \<Rightarrow> string \<Rightarrow> 'v eventBody \<Rightarrow> 'v store
     \<Rightarrow> (error + ('v, 'v runner) oevent) \<times> 'v store" where
  "updateEvent k castOk u eventid body s =
     (case updateRequestError u eventid body s of
        Some err \<Rightarrow> (Inl err, s)
      | None \<Rightarrow>
        (case find (\<lambda>e. e_id e = eventid) (eventDocs s) of
          None \<Rightarrow> (Inl NotFound, s)
        | Some eventToUpdate \<Rightarrow>
            if allowedToUpdate k u eventToUpdate
            then (let clubIdsChecked = map_option (validateClubIds s) (b_organisedBy body);
                      linkedEventIds = map_option (validateLinkedEventIds s) (b_linkedTo body);
                      ownerId = (truthy (b_owner body) \<and> role u = Admin
                                 \<and> validateUserId s (case b_owner body of None \<Rightarrow> [] | Some w \<Rightarrow> w));
                      addedLinkedEventIds = addedIds k (linkedTo eventToUpdate) linkedEventIds;
                      removedLinkedEventIds = removedIds k (linkedTo eventToUpdate) linkedEventIds
                  in if numberOfEventFields body clubIdsChecked linkedEventIds ownerId = 0
                     then (Inl BadRequest, s)
                     else if \<not> castOk body then (Inl BadRequest, s)
                     else (let updatedEvent =
                                 setEventFields body clubIdsChecked linkedEventIds ownerId eventToUpdate
                           in (Inr updatedEvent,
                               s\<lparr>eventDocs := replaceEvent updatedEvent (eventDocs s),
                                 linkedEventDocs :=
                                   mirrorIncludes addedLinkedEventIds removedLinkedEventIds
                                     (e_id updatedEvent) (linkedEventDocs s)\<rparr>)))
            else (Inl Unauthorized, s)))"

subsection \<open>updateEventLink\<close>

text \<open>
  The update of the linked event is rejected by the unique index on \<open>displayName\<close> when
  another linked event has the new name.
\<close>

definition updateEventLink ::
  "odm \<Rightarrow> reqUser \<Rightarrow> string \<Rightarrow> linkBody \<Rightarrow> 'v store \<Rightarrow> (error + linkedEvent) \<times> 'v store" where
  "updateEventLink k u eventlinkid body s =
     (if role u = Guest then (Inl Unauthorized, s)
      else if \<not> isValidObjectID eventlinkid then (Inl BadRequest, s)
      else (case find (\<lambda>l. l_id l = eventlinkid) (linkedEventDocs s) of
          None \<Rightarrow> (Inl NotFound, s)
        | Some linkedEventToUpdate \<Rightarrow>
            (let newDisplayName =
                   (if truthy (b_displayName body)
                       \<and> b_displayName body \<noteq> Some (l_displayName linkedEventToUpdate)
                    then b_displayName body else None);
                 eventIds = map_option (validateEventIds s) (b_includes body);
                 addedEventIds = addedIds k (l_includes linkedEventToUpdate) eventIds;
                 removedEventIds = removedIds k (l_includes linkedEventToUpdate) eventIds
             in if countIf (newDisplayName \<noteq> None) + countIf (eventIds \<noteq> None) = 0
                then (Inl BadRequest, s)
                else if (case newDisplayName of None \<Rightarrow> False
                         | Some n \<Rightarrow> n \<in> set (map l_displayName (linkedEventDocs s)))
                then (Inl BadRequest, s)
                else (let updatedLinkedEvent =
                            linkedEventToUpdate
                              \<lparr>l_displayName := (case newDisplayName of None \<Rightarrow> l_displayName linkedEventToUpdate
                                                  | Some n \<Rightarrow> n),
                                l_includes := (case eventIds of None \<Rightarrow> l_includes linkedEventToUpdate
                                               | Some ids \<Rightarrow> ids)\<rparr>
                      in (Inr updatedLinkedEvent,
                          s\<lparr>linkedEventDocs := replaceLinkedEvent updatedLinkedEvent (linkedEventDocs s),
                            eventDocs :=
                              mirrorLinkedTo addedEventIds removedEventIds (l_id updatedLinkedEvent)
                                (eventDocs s)\<rparr>)))))"

subsection \<open>deleteEvent\<close>

text \<open>The tag \<open>deleted:DDMMYYYY@HHMM\<close> made from the current time.\<close>

record jsDate =
  getDate :: nat
  getMonth :: nat
  getFullYear :: nat
  getHours :: nat
  getMinutes :: nat

definition digitChar :: "nat \<Rightarrow> char" where
  "digitChar n = (''0123456789'' ! (n mod 10))"

fun showNat :: "nat \<Rightarrow> string" where
  "showNat n = (if n < 10 then [digitChar n] else showNat (n div 10) @ [digitChar n])"

declare showNat.simps [simp del]

text \<open>\<open>s.slice(-2)\<close>.\<close>

definition lastTwo :: "string \<Rightarrow> string" where
  "lastTwo s = drop (length s - 2) s"

definition deletedAt :: "jsDate \<Rightarrow> string" where
  "deletedAt now =
     ''deleted:'' @ lastTwo (''0'' @ showNat (getDate now))
       @ lastTwo (''0'' @ showNat (getMonth now + 1))
       @ showNat (getFullYear now) @ ''@''
       @ lastTwo (''0'' @ showNat (getHours now))
       @ lastTwo (''0'' @ showNat (getMinutes now))"

definition taggedOrisId :: "jsDate \<Rightarrow> ('v, 'r) oevent \<Rightarrow> string option" where
  "taggedOrisId now eventToDelete =
     (case orisId eventToDelete of
        None \<Rightarrow> None
      | Some i \<Rightarrow> if i = [] then None else Some (i @ '' '' @ deletedAt now))"

text \<open>
  deleteEvent. \<open>runner.user.toString()\<close> throws on an entry without a user; the handler
  has no \<open>catch\<close> there, so no response is sent (\<open>ServerError\<close>). The update is rejected
  by the unique index when another event already has the tagged \<open>orisId\<close>.
\<close>

definition deleteEvent ::
  "jsDate \<Rightarrow> reqUser \<Rightarrow> string \<Rightarrow> 'v store \<Rightarrow> (error + ('v, 'v runner) oevent) \<times> 'v store" where
  "deleteEvent now u eventid s =
     (if \<not> isValidObjectID eventid then (Inl BadRequest, s)
      else (case find (\<lambda>e. e_id e = eventid) (eventDocs s) of
          None \<Rightarrow> (Inl NotFound, s)
        | Some eventToDelete \<Rightarrow>
            (let requestorRole = role u; requestorId = uid u;
                 hasPermissionToDelete =
                   (requestorRole = Admin
                    \<or> (requestorRole = Standard \<and> requestorId = owner eventToDelete))
             in if runners eventToDelete \<noteq> [] \<and> (\<exists>r \<in> set (runners eventToDelete). r_user r = None)
                then (Inl ServerError, s)
                else (let noOtherRunners =
                            (length (runners eventToDelete) = 0
                             \<or> length (filter (\<lambda>r. r_user r \<noteq> Some requestorId) (runners eventToDelete)) = 0);
                          allowedToDelete = (hasPermissionToDelete \<and> noOtherRunners)
                      in if allowedToDelete
                         then (let newName = name eventToDelete @ '' '' @ deletedAt now;
                                   newOrisId = taggedOrisId now eventToDelete;
                                   deletedEvent =
                                     eventToDelete\<lparr>active := False, name := newName, orisId := newOrisId\<rparr>
                               in if newOrisId \<noteq> None
                                     \<and> newOrisId \<in> set (map orisId (filter (\<lambda>e. e_id e \<noteq> eventid) (eventDocs s)))
                                  then (Inl BadRequest, s)
                                  else (Inr deletedEvent,
                                        s\<lparr>eventDocs := replaceEvent deletedEvent (eventDocs s),
                                          linkedEventDocs :=
                                            updateMany (\<lambda>l. True)
                                              (\<lambda>l. l\<lparr>l_includes := pull eventid (l_includes l)\<rparr>)
                                              (linkedEventDocs s)\<rparr>))
                         else (Inl Unauthorized, s)))))"

subsection \<open>deleteEventLink\<close>

definition deleteEventLink ::
  "reqUser \<Rightarrow> string \<Rightarrow> 'v store \<Rightarrow> (error + linkedEvent) \<times> 'v store" where
  "deleteEventLink u eventlinkid s =
     (if \<not> isValidObjectID eventlinkid then (Inl BadRequest, s)
      else if role u = Admin
      then (case find (\<lambda>l. l_id l = eventlinkid) (linkedEventDocs s) of
          None \<Rightarrow> (Inl NotFound, s)
        | Some linkedEventToDelete \<Rightarrow>
            (Inr linkedEventToDelete,
             s\<lparr>linkedEventDocs := filter (\<lambda>l. l_id l \<noteq> eventlinkid) (linkedEventDocs s),
               eventDocs :=
                 updateMany (\<lambda>e. e_id e \<in> set (l_includes linkedEventToDelete))
                   (\<lambda>e. e\<lparr>linkedTo := pull (l_id linkedEventToDelete) (linkedTo e)\<rparr>)
                   (eventDocs s)\<rparr>))
      else (Inl Unauthorized, s))"

subsection \<open>updateEventRunner\<close>

definition runnerValidFields :: "string list" where
  "runnerValidFields = [''visibility'', ''courseTitle'', ''courseLength'', ''courseClimb'',
     ''courseControls'', ''fullResults'', ''time'', ''place'', ''timeBehind'', ''fieldSize'',
     ''distanceRun'', ''tags'', ''maps'']"

text \<open>
  \<open>{ $set: { 'runners.$': value } }\<close> with the filter \<open>'runners.user': userid\<close>: the
  first entry of the array that matches the filter is set to the value.
\<close>

fun setFirstMatching :: "('a \<Rightarrow> bool) \<Rightarrow> 'a \<Rightarrow> 'a list \<Rightarrow> 'a list" where
  "setFirstMatching matching y [] = []"
| "setFirstMatching matching y (x # xs) =
     (if matching x then y # xs else x # setFirstMatching matching y xs)"

text \<open>
  updateEventRunner. \<open>runner.user.toString()\<close> throws on an entry without a user, inside
  the promise chain: the \<open>catch\<close> answers 400. The value set is \<open>fieldsToUpdateRunner\<close>,
  the whitelisted keys of the body, as the object-document mapper casts it to the runner
  schema: \<open>castRunner\<close>, a parameter, gives the fields of the cast value by key, or
  \<open>None\<close> when the cast fails. The value has no \<open>user\<close> key.
\<close>

definition updateEventRunner ::
  "((string \<times> 'v) list \<Rightarrow> (string \<rightharpoonup> 'v) option) \<Rightarrow> reqUser \<Rightarrow> string \<Rightarrow> string
     \<Rightarrow> (string \<times> 'v) list \<Rightarrow> 'v store \<Rightarrow> (error + ('v, 'v runner) oevent) \<times> 'v store" where
  "updateEventRunner castRunner u eventid userid body s =
     (if role u = Guest then (Inl Unauthorized, s)
      else if \<not> isValidObjectID eventid then (Inl BadRequest, s)
      else if \<not> isValidObjectID userid then (Inl BadRequest, s)
      else (case find (\<lambda>e. e_id e = eventid) (eventDocs s) of
          None \<Rightarrow> (Inl NotFound, s)
        | Some eventToUpdateRunnerAt \<Rightarrow>
            (case those (map r_user (runners eventToUpdateRunnerAt)) of
               None \<Rightarrow> (Inl BadRequest, s)
             | Some runnerIds \<Rightarrow>
                 if userid \<notin> set runnerIds then (Inl BadRequest, s)
                 else if role u = Admin \<or> (role u = Standard \<and> uid u = userid)
                 then (let fieldsToUpdateRunner = whitelisted runnerValidFields body
                       in if length (remdups (map fst fieldsToUpdateRunner)) = 0
                          then (Inl BadRequest, s)
                          else (case castRunner fieldsToUpdateRunner of
                              None \<Rightarrow> (Inl BadRequest, s)
                            | Some doc \<Rightarrow>
                                (let updatedEvent =
                                       eventToUpdateRunnerAt
                                         \<lparr>runners :=
                                            setFirstMatching (\<lambda>r. r_user r = Some userid)
                                              \<lparr>r_user = None, r_fields = doc\<rparr>
                                              (runners eventToUpdateRunnerAt)\<rparr>
                                 in (Inr updatedEvent,
                                     s\<lparr>eventDocs := replaceEvent updatedEvent (eventDocs s)\<rparr>))))
                 else (Inl Unauthorized, s))))"

section \<open>Sequences of operations and the reference graph\<close>

text \<open>
  The create, update and delete requests on events and linked events, with what each
  takes from its environment: the requester, the body, the id generated for a new
  document, the current time.
\<close>

datatype 'v operation =
    CreateEvent reqUser "'v eventBody" oid
  | CreateEventLink reqUser linkBody oid
  | UpdateEvent reqUser string "'v eventBody"
  | UpdateEventLink reqUser string linkBody
  | DeleteEvent jsDate reqUser string
  | DeleteEventLink reqUser string

fun perform ::
  "odm \<Rightarrow> bool \<Rightarrow> (('v, 'v runner) oevent \<Rightarrow> bool) \<Rightarrow> ('v eventBody \<Rightarrow> bool) \<Rightarrow> 'v operation \<Rightarrow> 'v store \<Rightarrow> 'v store" where
  "perform k settersOnQuery schemaOk castOk (CreateEvent u body newId) s =
     snd (createEvent settersOnQuery schemaOk u body newId s)"
| "perform k settersOnQuery schemaOk castOk (CreateEventLink u body newId) s = snd (createEventLink u body newId s)"
| "perform k settersOnQuery schemaOk castOk (UpdateEvent u eventid body) s = snd (updateEvent k castOk u eventid body s)"
| "perform k settersOnQuery schemaOk castOk (UpdateEventLink u eventlinkid body) s = snd (updateEventLink k u eventlinkid body s)"
| "perform k settersOnQuery schemaOk castOk (DeleteEvent now u eventid) s = snd (deleteEvent now u eventid s)"
| "perform k settersOnQuery schemaOk castOk (DeleteEventLink u eventlinkid) s = snd (deleteEventLink u eventlinkid s)"

definition performAll ::
  "odm \<Rightarrow> bool \<Rightarrow> (('v, 'v runner) oevent \<Rightarrow> bool) \<Rightarrow> ('v eventBody \<Rightarrow> bool) \<Rightarrow> 'v operation list \<Rightarrow> 'v store \<Rightarrow> 'v store" where
  "performAll k settersOnQuery schemaOk castOk ops s =
     foldl (\<lambda>t op. perform k settersOnQuery schemaOk castOk op t) s ops"

text \<open>
  The invariant as the specification states it: every event and every linked event
  reference each other or neither does, no reference is repeated, and every reference
  names a stored document.
\<close>

definition referenceGraphSymmetric :: "'v store \<Rightarrow> bool" where
  "referenceGraphSymmetric s =
     ((\<forall>e \<in> set (eventDocs s). \<forall>l \<in> set (linkedEventDocs s).
          (e_id e \<in> set (l_includes l)) = (l_id l \<in> set (linkedTo e)))
      \<and> (\<forall>e \<in> set (eventDocs s).
            distinct (linkedTo e) \<and> set (linkedTo e) \<subseteq> l_id ` set (linkedEventDocs s))
      \<and> (\<forall>l \<in> set (linkedEventDocs s).
            distinct (l_includes l) \<and> set (l_includes l) \<subseteq> e_id ` set (eventDocs s)))"

text \<open>
  The invariant the operations keep: ids are unique in each collection; every active
  event and every linked event reference each other or neither does; every reference of
  an active event names a stored linked event, and every reference of a linked event
  names a stored event.
\<close>

definition consistent :: "'v store \<Rightarrow> bool" where
  "consistent s =
     (distinct (map e_id (eventDocs s)) \<and> distinct (map l_id (linkedEventDocs s))
      \<and> (\<forall>e \<in> set (eventDocs s). active e \<longrightarrow>
            (\<forall>l \<in> set (linkedEventDocs s).
               (e_id e \<in> set (l_includes l)) = (l_id l \<in> set (linkedTo e)))
            \<and> set (linkedTo e) \<subseteq> l_id ` set (linkedEventDocs s))
      \<and> (\<forall>l \<in> set (linkedEventDocs s). set (l_includes l) \<subseteq> e_id ` set (eventDocs s)))"

section \<open>Sample store\<close>

definition userA :: oid where "userA = ''5c0000000000000000000001''"
definition userB :: oid where "userB = ''5c0000000000000000000002''"
definition eventA :: oid where "eventA = ''5c00000000000000000000e1''"
definition eventB :: oid where "eventB = ''5c00000000000000000000e2''"
definition linkA :: oid where "linkA = ''5c00000000000000000000f1''"
definition linkB :: oid where "linkB = ''5c00000000000000000000f2''"

definition requester :: "userRole \<Rightarrow> oid \<Rightarrow> reqUser" where
  "requester r i = \<lparr>role = r, uid = i, memberOf = []\<rparr>"

definition runnerOf :: "oid \<Rightarrow> unit runner" where
  "runnerOf i = \<lparr>r_user = Some i, r_fields = Map.empty\<rparr>"

definition sampleEvent ::
  "oid \<Rightarrow> oid \<Rightarrow> string \<Rightarrow> oid list \<Rightarrow> unit runner list \<Rightarrow> bool \<Rightarrow> (unit, unit runner) oevent" where
  "sampleEvent i ownerId eventName links rs a =
     \<lparr>e_id = i, owner = ownerId, date = ''2019-05-01'', name = eventName, orisId = None,
      organisedBy = [], linkedTo = links, otherFields = Map.empty, runners = rs, active = a\<rparr>"

definition sampleLink :: "oid \<Rightarrow> string \<Rightarrow> oid list \<Rightarrow> linkedEvent" where
  "sampleLink i n es = \<lparr>l_id = i, l_displayName = n, l_includes = es\<rparr>"

definition sampleStore :: "(unit, unit runner) oevent list \<Rightarrow> linkedEvent list \<Rightarrow> unit store" where
  "sampleStore es ls = \<lparr>eventDocs = es, linkedEventDocs = ls, userIds = [userA, userB], clubIds = []\<rparr>"

definition emptyBody :: "unit eventBody" where
  "emptyBody = \<lparr>b_date = None, b_name = None, b_orisId = None, b_organisedBy = None,
     b_linkedTo = None, b_owner = None, b_other = []\<rparr>"

definition sampleNow :: jsDate where
  "sampleNow = \<lparr>getDate = 3, getMonth = 10, getFullYear = 2019, getHours = 9, getMinutes = 5\<rparr>"

definition courseRunner :: "oid \<Rightarrow> string runner" where
  "courseRunner i =
     \<lparr>r_user = Some i,
      r_fields = [''visibility'' \<mapsto> ''club'', ''courseTitle'' \<mapsto> ''H21A'', ''maps'' \<mapsto> ''[map]'']\<rparr>"

definition courseEvent :: "string runner list \<Rightarrow> (string, string runner) oevent" where
  "courseEvent rs =
     \<lparr>e_id = eventA, owner = userB, date = ''2019-05-01'', name = ''Spring Cup'', orisId = None,
      organisedBy = [], linkedTo = [], otherFields = Map.empty, runners = rs, active = True\<rparr>"

definition courseStore :: "string runner list \<Rightarrow> string store" where
  "courseStore rs = \<lparr>eventDocs = [courseEvent rs], linkedEventDocs = [], userIds = [userA, userB],
     clubIds = []\<rparr>"

section \<open>Properties of the track distance\<close>

lemma trackLoop_unfold:
  "trackLoop cd ws i acc =
     (if int i < int (length ws) - 2
      then trackLoop cd ws (i + 1) (addDistance acc (cd (elemAt ws i) (elemAt ws (i + 1))))
      else acc)"
  by (rule trackLoop.simps)

lemma trackDistanceOf_two:
  "trackDistanceOf (onWaypoints d) [a, b] = Some (d a b)"
  by (simp add: trackDistanceOf_def trackLoop_unfold elemAt_def onWaypoints_def)

lemma trackDistanceOf_short:
  "trackDistanceOf cd [] = cd None None"
  "trackDistanceOf cd [a] = cd (Some a) None"
  by (simp_all add: trackDistanceOf_def trackLoop_unfold elemAt_def)

text \<open>
  The loop started at index \<open>i\<close> adds the legs \<open>i\<close> up to \<open>length ws - 3\<close>: its
  condition \<open>i < length - 2\<close> stops one leg before the end of the track.
\<close>

lemma trackLoop_sum:
  "trackLoop (onWaypoints d) ws i (Some acc)
     = Some (acc + (\<Sum>j = i..<length ws - 2. d (ws ! j) (ws ! (j + 1))))"
proof (induction "onWaypoints d" ws i "Some acc" arbitrary: acc rule: trackLoop.induct)
  case (1 ws i)
  show ?case
  proof (cases "int i < int (length ws) - 2")
    case True
    then have lt: "i < length ws - 2" by linarith
    then have el: "elemAt ws i = Some (ws ! i)" "elemAt ws (Suc i) = Some (ws ! Suc i)"
      by (simp_all add: elemAt_def)
    have step: "addDistance (Some acc) (onWaypoints d (elemAt ws i) (elemAt ws (i + 1)))
        = Some (acc + d (ws ! i) (ws ! (i + 1)))"
      by (simp add: el addDistance_def onWaypoints_def)
    have "trackLoop (onWaypoints d) ws i (Some acc)
        = trackLoop (onWaypoints d) ws (i + 1) (Some (acc + d (ws ! i) (ws ! (i + 1))))"
      using True step by (subst trackLoop_unfold) simp
    also have "\<dots> = Some (acc + d (ws ! i) (ws ! (i + 1))
        + (\<Sum>j = i + 1..<length ws - 2. d (ws ! j) (ws ! (j + 1))))"
      using "1.hyps" [OF True step] by simp
    also have "\<dots> = Some (acc + (\<Sum>j = i..<length ws - 2. d (ws ! j) (ws ! (j + 1))))"
      using lt by (simp add: sum.atLeast_Suc_lessThan add.assoc)
    finally show ?thesis .
  next
    case False
    then have "length ws - 2 \<le> i" by linarith
    then show ?thesis using False by (subst trackLoop_unfold) simp
  qed
qed

text \<open>
  With the seed, a track of at least two waypoints yields the first leg plus the legs
  \<open>0\<close> up to \<open>length ws - 3\<close>.
\<close>

lemma trackDistanceOf_sum:
  assumes "2 \<le> length ws"
  shows "trackDistanceOf (onWaypoints d) ws
     = Some (d (ws ! 0) (ws ! 1) + (\<Sum>j = 0..<length ws - 2. d (ws ! j) (ws ! (j + 1))))"
proof -
  from assms have el: "elemAt ws 0 = Some (ws ! 0)" "elemAt ws 1 = Some (ws ! 1)"
    by (auto simp: elemAt_def)
  show ?thesis
    by (simp add: trackDistanceOf_def el onWaypoints_def trackLoop_sum del: One_nat_def)
qed

text \<open>
  Claim C5 at a track of three waypoints: the code adds the first leg twice and never
  reads the last leg, where the specified sum is \<open>d a b + d b c\<close>.
\<close>

theorem postMap_distance_three_waypoints:
  "trackDistanceK (onWaypoints d) (Some [a, b, c]) = Some (of_int (floor (d a b + d a b)) / 1000)
   \<and> pairwiseSum d [a, b, c] = d a b + d b c"
  by (simp add: trackDistanceK_def trackDistanceOf_def trackLoop_unfold elemAt_def onWaypoints_def
      addDistance_def)

section \<open>Properties of the read paths\<close>

lemmas sample_defs = sampleViewer_def anonymousViewer_def privateRunner_def otherPrivateRunner_def
  ownPrivateRunner_def ownPrivateRunnerInDetail_def vic_def renderedClub_def
  clubRunner_def publicRunner_def userlessRunner_def clubRunnerInDetail_def publicRunnerInDetail_def
  springCup_def sampleDb_def springCupSummary_def sampleEnv_def ann_def bob_def cyd_def dan_def
  clubABC_def clubXYZ_def

lemmas read_defs = getEventList_def eventSearchCriteria_def matchesCriteria_def satisfiesCond_def
  populatedForList_def populateRunners_def populateRunner_def populateUser_def
  eventDetailsOf_def summariseRunner_def runnerSummaryOf_def canSee_def requestorId_def
  requestorClubs_def clubsInclude_def Let_def filterStep_def setKey_def validStringFilters_def
  validIdFilters_def isValidObjectID_def isHexDigit_def

text \<open>
  The test of the code is the rule table, on a runner entry whose user is populated, with
  the strings \<open>clubId.toString()\<close> in the place of the club ids of the runner's user.
\<close>

lemma canSee_rule_table:
  "user runner = Some runnerUser \<Longrightarrow>
     canSee toString u runner
       = Some (ruleTable u (visibility runner) (pu_id runnerUser) (toString ` set (pu_memberOf runnerUser)))"
  by (cases "role u"; cases "visibility runner")
     (auto simp: canSee_def ruleTable_def requestorId_def requestorClubs_def Let_def
        clubsInclude_def filter_empty_conv)

text \<open>
  On an entry whose populated user is \<open>null\<close> the test throws for a standard or guest
  requester.
\<close>

lemma canSee_no_user:
  "user runner = None \<Longrightarrow>
     canSee toString u runner
       = (if role u = Standard \<or> role u = Guest then None
          else Some (role u = Admin \<or> visibility runner = VisPublic))"
  by (simp add: canSee_def Let_def)

lemma ruleTable_anonymous:
  "role u = Anonymous \<Longrightarrow> ruleTable u runnerVisibility runnerUser runnerClubs = (runnerVisibility = VisPublic)"
  by (simp add: ruleTable_def)

lemma mapThrowing_Nil [simp]: "mapThrowing f [] = Some []"
  by (simp add: mapThrowing_def)

lemma mapThrowing_Cons [simp]:
  "mapThrowing f (x # xs) =
     (case f x of None \<Rightarrow> None | Some y \<Rightarrow> map_option ((#) y) (mapThrowing f xs))"
  by (simp add: mapThrowing_def split: option.splits)

lemma mapThrowing_map: "mapThrowing f (map g xs) = mapThrowing (\<lambda>x. f (g x)) xs"
  by (simp add: mapThrowing_def comp_def)

lemma mapThrowing_cong:
  "(\<And>x. x \<in> set xs \<Longrightarrow> f x = g x) \<Longrightarrow> mapThrowing f xs = mapThrowing g xs"
  by (induction xs) (simp_all split: option.splits)

lemma mapThrowing_skip:
  "map_option truthyEntries (mapThrowing f xs)
     = map_option truthyEntries (mapThrowing f (filter (\<lambda>x. f x \<noteq> Some None) xs))"
proof (induction xs)
  case Nil
  then show ?case by simp
next
  case (Cons a xs)
  show ?case
  proof (cases "f a")
    case None
    then show ?thesis by simp
  next
    case (Some y)
    show ?thesis
    proof (cases y)
      case None
      then show ?thesis using Some Cons.IH by (simp add: option.map_comp comp_def)
    next
      case (Some z)
      then have fa: "f a = Some (Some z)" using \<open>f a = Some y\<close> by simp
      show ?thesis
        using Cons.IH fa
        by (cases "mapThrowing f xs"; cases "mapThrowing f (filter (\<lambda>x. f x \<noteq> Some None) xs)")
           simp_all
    qed
  qed
qed


lemma selectRunner_hidden:
  "(selectRunner toString u r = Some None) = (canSee toString u r = Some False)"
  by (auto simp: selectRunner_def split: option.splits)

lemma summariseRunner_hidden:
  "(summariseRunner u r = Some None) = (canSee (\<lambda>clubId. clubId) u r = Some False)"
  by (auto simp: summariseRunner_def split: option.splits)

lemma no_runners_self: "runners e = [] \<Longrightarrow> e\<lparr>runners := []\<rparr> = e"
  by (cases e) simp

lemma filteredEvent_eq:
  "filteredEvent toString u e
     = map_option (\<lambda>selectedRunners. e\<lparr>runners := truthyEntries selectedRunners\<rparr>)
         (mapThrowing (selectRunner toString u) (runners e))"
  by (cases "runners e") (simp_all add: filteredEvent_def no_runners_self option.map_comp comp_def
        split: option.splits)

lemma recordEq_runners:
  "e1\<lparr>runners := []\<rparr> = e2\<lparr>runners := []\<rparr> \<Longrightarrow> e1\<lparr>runners := rs\<rparr> = e2\<lparr>runners := rs\<rparr>"
  by (cases e1, cases e2) simp

lemma sameFields:
  assumes "e1\<lparr>runners := []\<rparr> = e2\<lparr>runners := []\<rparr>"
  shows "e_id e1 = e_id e2" "active e1 = active e2" "orisId e1 = orisId e2" "date e1 = date e2"
    "name e1 = name e2" "otherFields e1 = otherFields e2" "organisedBy e1 = organisedBy e2"
    "linkedTo e1 = linkedTo e2" "owner e1 = owner e2"
proof -
  note eq = assms
  show "e_id e1 = e_id e2" using arg_cong [OF eq, of e_id] by simp
  show "active e1 = active e2" using arg_cong [OF eq, of active] by simp
  show "orisId e1 = orisId e2" using arg_cong [OF eq, of orisId] by simp
  show "date e1 = date e2" using arg_cong [OF eq, of date] by simp
  show "name e1 = name e2" using arg_cong [OF eq, of name] by simp
  show "otherFields e1 = otherFields e2" using arg_cong [OF eq, of otherFields] by simp
  show "organisedBy e1 = organisedBy e2" using arg_cong [OF eq, of organisedBy] by simp
  show "linkedTo e1 = linkedTo e2" using arg_cong [OF eq, of linkedTo] by simp
  show "owner e1 = owner e2" using arg_cong [OF eq, of owner] by simp
qed

lemma populateRunners_sameFields:
  assumes "e1\<lparr>runners := []\<rparr> = e2\<lparr>runners := []\<rparr>"
  shows "(populateRunners f e1)\<lparr>runners := []\<rparr> = (populateRunners f e2)\<lparr>runners := []\<rparr>"
  using sameFields [OF assms] by (simp add: populateRunners_def)

lemma runners_populateRunners:
  "runners (populateRunners f e) = map (populateRunner f) (runners e)"
  by (simp add: populateRunners_def)

text \<open>The detail view of two stored events that differ only in hidden runners.\<close>

lemma filteredEvent_hidden:
  assumes "differOnlyIn (\<lambda>r. canSee toString u (populateRunner f r) = Some False) e1 e2"
  shows "filteredEvent toString u (populateRunners f e1) = filteredEvent toString u (populateRunners f e2)"
proof -
  let ?g = "\<lambda>r. selectRunner toString u (populateRunner f r)"
  have fields: "e1\<lparr>runners := []\<rparr> = e2\<lparr>runners := []\<rparr>"
    and rs: "filter (\<lambda>r. ?g r \<noteq> Some None) (runners e1) = filter (\<lambda>r. ?g r \<noteq> Some None) (runners e2)"
    using assms by (simp_all add: differOnlyIn_def selectRunner_hidden)
  have sel: "map_option truthyEntries (mapThrowing ?g (runners e1))
      = map_option truthyEntries (mapThrowing ?g (runners e2))"
    using mapThrowing_skip [of ?g "runners e1"] mapThrowing_skip [of ?g "runners e2"] rs by simp
  have upd: "(populateRunners f e1)\<lparr>runners := xs\<rparr> = (populateRunners f e2)\<lparr>runners := xs\<rparr>" for xs
    using recordEq_runners [OF populateRunners_sameFields [OF fields]] .
  have "map_option (\<lambda>sel. (populateRunners f e1)\<lparr>runners := truthyEntries sel\<rparr>) (mapThrowing ?g (runners e1))
      = map_option (\<lambda>xs. (populateRunners f e1)\<lparr>runners := xs\<rparr>)
          (map_option truthyEntries (mapThrowing ?g (runners e1)))"
    by (simp add: option.map_comp comp_def)
  also have "\<dots> = map_option (\<lambda>xs. (populateRunners f e2)\<lparr>runners := xs\<rparr>)
          (map_option truthyEntries (mapThrowing ?g (runners e2)))"
    using sel upd by simp
  also have "\<dots> = map_option (\<lambda>sel. (populateRunners f e2)\<lparr>runners := truthyEntries sel\<rparr>)
          (mapThrowing ?g (runners e2))"
    by (simp add: option.map_comp comp_def)
  finally show ?thesis
    by (simp add: filteredEvent_eq runners_populateRunners mapThrowing_map)
qed

lemma findActive_hidden:
  assumes "list_all2 R es1 es2"
    and "\<And>e1 e2. R e1 e2 \<Longrightarrow> e_id e1 = e_id e2 \<and> active e1 = active e2 \<and> h e1 = h e2"
  shows "(case find (\<lambda>e. e_id e = eventid \<and> active e = True) es1 of
        None \<Rightarrow> Inl NotFound | Some stored \<Rightarrow> h stored)
     = (case find (\<lambda>e. e_id e = eventid \<and> active e = True) es2 of
        None \<Rightarrow> Inl NotFound | Some stored \<Rightarrow> h stored)"
  using assms(1)
proof (induction es1 es2 rule: list_all2_induct)
  case Nil
  then show ?case by simp
next
  case (Cons e1 es1 e2 es2)
  then show ?case using assms(2) [OF Cons.hyps(1)] by simp
qed

lemma getEvent_hidden:
  assumes "db_users db1 = db_users db2" and "db_clubs db1 = db_clubs db2"
    and "list_all2 (differOnlyIn (hiddenInDetail docToString u db1)) (db_events db1) (db_events db2)"
  shows "getEvent docToString u eventid db1 = getEvent docToString u eventid db2"
proof -
  let ?f = "\<lambda>ref. map_option (populateMemberOf (db_clubs db1)) (populateUser (db_users db1) ref)"
  let ?h = "\<lambda>stored. case filteredEvent docToString u (populateRunners ?f stored) of
                   None \<Rightarrow> Inl BadRequest
                 | Some filtered \<Rightarrow> Inr filtered"
  have step: "e_id e1 = e_id e2 \<and> active e1 = active e2 \<and> ?h e1 = ?h e2"
    if "differOnlyIn (hiddenInDetail docToString u db1) e1 e2" for e1 e2
  proof -
    have d: "differOnlyIn (\<lambda>r. canSee docToString u (populateRunner ?f r) = Some False) e1 e2"
      using that unfolding hiddenInDetail_def .
    have fields: "e1\<lparr>runners := []\<rparr> = e2\<lparr>runners := []\<rparr>"
      using that by (simp add: differOnlyIn_def)
    show ?thesis
      using sameFields(1,2) [OF fields] filteredEvent_hidden [OF d] by simp
  qed
  have found: "(case find (\<lambda>e. e_id e = eventid \<and> active e = True) (db_events db1) of
        None \<Rightarrow> Inl NotFound | Some stored \<Rightarrow> ?h stored)
     = (case find (\<lambda>e. e_id e = eventid \<and> active e = True) (db_events db2) of
        None \<Rightarrow> Inl NotFound | Some stored \<Rightarrow> ?h stored)"
    by (rule findActive_hidden [OF assms(3)]) (rule step)
  have g1: "getEvent docToString u eventid db1
      = (if \<not> isValidObjectID eventid then Inl BadRequest
         else (case find (\<lambda>e. e_id e = eventid \<and> active e = True) (db_events db1) of
                 None \<Rightarrow> Inl NotFound | Some stored \<Rightarrow> ?h stored))"
    unfolding getEvent_def populatedForDetail_def by simp
  have g2: "getEvent docToString u eventid db2
      = (if \<not> isValidObjectID eventid then Inl BadRequest
         else (case find (\<lambda>e. e_id e = eventid \<and> active e = True) (db_events db2) of
                 None \<Rightarrow> Inl NotFound | Some stored \<Rightarrow> ?h stored))"
    unfolding getEvent_def populatedForDetail_def assms(1) [symmetric] assms(2) [symmetric] by simp
  show ?thesis
    unfolding g1 g2 found ..
qed


text \<open>The listing of two stored events that differ only in hidden runners.\<close>

lemma eventDetailsOf_hidden:
  assumes "differOnlyIn (\<lambda>r. canSee (\<lambda>clubId. clubId) u (populateRunner f r) = Some False) e1 e2"
    and "length (runners e1) = length (runners e2)"
  shows "eventDetailsOf u (populateRunners f e1) = eventDetailsOf u (populateRunners f e2)"
proof -
  let ?g = "\<lambda>r. summariseRunner u (populateRunner f r)"
  have fields: "e1\<lparr>runners := []\<rparr> = e2\<lparr>runners := []\<rparr>"
    and rs: "filter (\<lambda>r. ?g r \<noteq> Some None) (runners e1) = filter (\<lambda>r. ?g r \<noteq> Some None) (runners e2)"
    using assms(1) by (simp_all add: differOnlyIn_def summariseRunner_hidden)
  have sel: "map_option truthyEntries (mapThrowing ?g (runners e1))
      = map_option truthyEntries (mapThrowing ?g (runners e2))"
    using mapThrowing_skip [of ?g "runners e1"] mapThrowing_skip [of ?g "runners e2"] rs by simp
  have empty: "(runners e1 = []) = (runners e2 = [])"
    using assms(2) by (metis length_0_conv)
  show ?thesis
    using sameFields [OF fields] assms(2) empty sel
    by (cases "mapThrowing ?g (runners e1)"; cases "mapThrowing ?g (runners e2)")
       (simp_all add: eventDetailsOf_def Let_def populateRunners_def mapThrowing_map)
qed

lemma fieldOf_sameFields:
  assumes "e1\<lparr>runners := []\<rparr> = e2\<lparr>runners := []\<rparr>"
  shows "fieldOf e1 key = fieldOf e2 key"
  using sameFields [OF assms] by (simp add: fieldOf_def)

lemma matchesCriteria_sameFields:
  assumes "e1\<lparr>runners := []\<rparr> = e2\<lparr>runners := []\<rparr>"
    and "\<And>k i. (k, CElemMatchUser i) \<notin> set crit"
  shows "matchesCriteria env crit e1 = matchesCriteria env crit e2"
proof -
  have "satisfiesCond env e1 kc = satisfiesCond env e2 kc" if "kc \<in> set crit" for kc
  proof (cases kc)
    case (Pair k c)
    then have "\<And>i. c \<noteq> CElemMatchUser i" using that assms(2) by auto
    then show ?thesis
      using Pair sameFields(2) [OF assms(1)] fieldOf_sameFields [OF assms(1)]
      by (cases c) (auto simp: satisfiesCond_def)
  qed
  then show ?thesis
    by (simp add: matchesCriteria_def list_all_iff)
qed

lemma in_setKey:
  "kc \<in> set (setKey k c crit) \<Longrightarrow> kc \<in> set crit \<or> kc = (k, c)"
  by (auto simp: setKey_def split: if_splits)

lemma filterStep_no_elemMatch:
  assumes "\<And>k i. (k, CElemMatchUser i) \<notin> set crit"
    and "\<not> (fst kv = ''runners'' \<and> isValidObjectID (snd kv))"
  shows "(k, CElemMatchUser i) \<notin> set (filterStep kv crit)"
proof
  assume "(k, CElemMatchUser i) \<in> set (filterStep kv crit)"
  then show False
    using assms
    by (auto simp: filterStep_def Let_def split: if_splits dest!: in_setKey)
qed

lemma foldl_filterStep_no_elemMatch:
  assumes "\<And>k i. (k, CElemMatchUser i) \<notin> set crit"
    and "\<And>kv. kv \<in> set query \<Longrightarrow> \<not> (fst kv = ''runners'' \<and> isValidObjectID (snd kv))"
  shows "(k, CElemMatchUser i) \<notin> set (foldl (\<lambda>c kv. filterStep kv c) crit query)"
  using assms
proof (induction query arbitrary: crit)
  case Nil
  then show ?case by simp
next
  case (Cons kv query)
  have "\<And>k i. (k, CElemMatchUser i) \<notin> set (filterStep kv crit)"
    using filterStep_no_elemMatch [of crit kv] Cons.prems by simp
  then show ?case using Cons.IH [of "filterStep kv crit"] Cons.prems(2) by simp
qed

lemma eventSearchCriteria_no_elemMatch:
  assumes "\<not> filtersOnRunners query"
  shows "(k, CElemMatchUser i) \<notin> set (eventSearchCriteria env query)"
proof -
  have q: "\<And>kv. kv \<in> set query \<Longrightarrow> \<not> (fst kv = ''runners'' \<and> isValidObjectID (snd kv))"
    using assms by (auto simp: filtersOnRunners_def list_ex_iff)
  have base: "\<And>k i. (k, CElemMatchUser i) \<notin> set (foldl (\<lambda>c kv. filterStep kv c) [(''active'', CTrue)] query)"
    by (rule foldl_filterStep_no_elemMatch) (simp_all add: q)
  show ?thesis
    using base
    by (auto simp: eventSearchCriteria_def Let_def split: option.splits if_splits dest!: in_setKey)
qed

lemma mapThrowing_filter_related:
  assumes "list_all2 R xs ys"
    and "\<And>x y. R x y \<Longrightarrow> P x = P y \<and> f x = g y"
  shows "mapThrowing f (filter P xs) = mapThrowing g (filter P ys)"
  using assms(1)
proof (induction xs ys rule: list_all2_induct)
  case Nil
  then show ?case by simp
next
  case (Cons x xs y ys)
  then show ?case using assms(2) [OF Cons.hyps(1)] by (simp split: option.splits)
qed

lemma getEventList_hidden:
  assumes "db_users db1 = db_users db2"
    and "list_all2 (\<lambda>e1 e2. differOnlyIn (hiddenInList u db1) e1 e2 \<and> sameNumberOfRunners e1 e2)
           (db_events db1) (db_events db2)"
    and "\<not> filtersOnRunners query"
  shows "getEventList env u query db1 = getEventList env u query db2"
proof -
  let ?crit = "eventSearchCriteria env query"
  let ?f = "\<lambda>stored. eventDetailsOf u (populateRunners (populateUser (db_users db1)) stored)"
  have step: "matchesCriteria env ?crit e1 = matchesCriteria env ?crit e2 \<and> ?f e1 = ?f e2"
    if "differOnlyIn (hiddenInList u db1) e1 e2 \<and> sameNumberOfRunners e1 e2" for e1 e2
  proof -
    have d: "differOnlyIn (\<lambda>r. canSee (\<lambda>clubId. clubId) u (populateRunner (populateUser (db_users db1)) r) = Some False) e1 e2"
      using that unfolding hiddenInList_def by simp
    have fields: "e1\<lparr>runners := []\<rparr> = e2\<lparr>runners := []\<rparr>"
      using that by (simp add: differOnlyIn_def)
    have len: "length (runners e1) = length (runners e2)"
      using that by (simp add: sameNumberOfRunners_def)
    show ?thesis
      using matchesCriteria_sameFields [OF fields eventSearchCriteria_no_elemMatch [OF assms(3)]]
        eventDetailsOf_hidden [OF d len]
      by simp
  qed
  have same: "mapThrowing ?f (filter (matchesCriteria env ?crit) (db_events db1))
      = mapThrowing ?f (filter (matchesCriteria env ?crit) (db_events db2))"
    by (rule mapThrowing_filter_related [OF assms(2)]) (rule step)
  have l1: "getEventList env u query db1
      = (if \<exists>kv \<in> set query. fst kv \<in> set validStringFilters \<and> \<not> regExpCompiles env (snd kv)
         then Inl ServerError
         else (case mapThrowing ?f (filter (matchesCriteria env ?crit) (db_events db1)) of
                 None \<Rightarrow> Inl BadRequest | Some eventsSummary \<Rightarrow> Inr eventsSummary))"
    unfolding getEventList_def populatedForList_def by simp
  have l2: "getEventList env u query db2
      = (if \<exists>kv \<in> set query. fst kv \<in> set validStringFilters \<and> \<not> regExpCompiles env (snd kv)
         then Inl ServerError
         else (case mapThrowing ?f (filter (matchesCriteria env ?crit) (db_events db2)) of
                 None \<Rightarrow> Inl BadRequest | Some eventsSummary \<Rightarrow> Inr eventsSummary))"
    unfolding getEventList_def populatedForList_def assms(1) [symmetric] by simp
  show ?thesis
    unfolding l1 l2 same ..
qed


text \<open>
  In the detail view the entries of \<open>memberOf\<close> are club documents. The test is the
  rule table when the string form of each is its id, and the rule table without the club
  clause when none of the string forms is a club id of the viewer.
\<close>

lemma canSee_detail_rule_table:
  assumes "user runner = Some runnerUser"
    and "\<And>c. c \<in> set (pu_memberOf runnerUser) \<Longrightarrow> docToString c = c_id c"
  shows "canSee docToString u runner
       = Some (ruleTable u (visibility runner) (pu_id runnerUser) (c_id ` set (pu_memberOf runnerUser)))"
proof -
  have "docToString ` set (pu_memberOf runnerUser) = c_id ` set (pu_memberOf runnerUser)"
    using assms(2) by (auto simp: image_iff)
  then show ?thesis using canSee_rule_table [OF assms(1), of docToString u] by simp
qed

lemma canSee_detail_without_club_clause:
  assumes "user runner = Some runnerUser"
    and "\<And>c. c \<in> set (pu_memberOf runnerUser) \<Longrightarrow> docToString c \<notin> set (memberOf u)"
  shows "canSee docToString u runner = Some (ruleTable u (visibility runner) (pu_id runnerUser) {})"
proof -
  have "set (memberOf u) \<inter> docToString ` set (pu_memberOf runnerUser) = {}"
    using assms(2) by auto
  then show ?thesis
    using canSee_rule_table [OF assms(1), of docToString u] by (simp add: ruleTable_def)
qed

text \<open>
  Both handlers return the runners that pass the test, in their stored order: the detail
  view the entries themselves, the listing a summary of each.
\<close>

lemma mapThrowing_selectRunner:
  "mapThrowing (selectRunner toString u) rs = Some selectedRunners \<Longrightarrow>
     truthyEntries selectedRunners = filter (\<lambda>r. canSee toString u r = Some True) rs"
proof (induction rs arbitrary: selectedRunners)
  case Nil
  then show ?case by simp
next
  case (Cons r rs)
  then show ?case
    by (auto simp: selectRunner_def split: option.splits if_splits)
qed

lemma filteredEvent_runners:
  "filteredEvent toString u e = Some filtered \<Longrightarrow>
     filtered = e\<lparr>runners := filter (\<lambda>r. canSee toString u r = Some True) (runners e)\<rparr>"
  by (auto simp: filteredEvent_eq dest: mapThrowing_selectRunner)

lemma mapThrowing_summariseRunner:
  "mapThrowing (summariseRunner u) rs = Some selectedRunners \<Longrightarrow>
     map Some (truthyEntries selectedRunners)
       = map runnerSummaryOf (filter (\<lambda>r. canSee (\<lambda>clubId. clubId) u r = Some True) rs)"
proof (induction rs arbitrary: selectedRunners)
  case Nil
  then show ?case by simp
next
  case (Cons r rs)
  then show ?case
    by (auto simp: summariseRunner_def split: option.splits if_splits)
qed

lemma eventDetailsOf_runners:
  assumes "eventDetailsOf u e = Some d"
  shows "totalRunners d = length (runners e)"
    and "map_option (map Some) (d_runners d) =
      (if runners e = [] then None
       else Some (map runnerSummaryOf (filter (\<lambda>r. canSee (\<lambda>clubId. clubId) u r = Some True) (runners e))))"
  using assms
  by (auto simp: eventDetailsOf_def Let_def split: if_splits option.splits
      dest: mapThrowing_summariseRunner)

text \<open>
  A runner entry that has lost its user: the detail view of a standard requester and the
  listing of an admin answer with status 400; the detail view of an admin returns the
  entry, and the listing of an anonymous requester leaves it out.
\<close>

lemma userless_runner_responses:
  "getEvent docToString sampleViewer ''5c00000000000000000000e1'' (sampleDb [userlessRunner] True)
     = Inl BadRequest"
  "getEvent docToString \<lparr>role = Admin, uid = ''5c0000000000000000000009'', memberOf = []\<rparr>
       ''5c00000000000000000000e1'' (sampleDb [userlessRunner] True)
     = Inr (springCup [\<lparr>user = None, visibility = VisAll, maps = [], rest = ()\<rparr>] True)"
  "getEventList sampleEnv \<lparr>role = Admin, uid = ''5c0000000000000000000009'', memberOf = []\<rparr> []
       (sampleDb [userlessRunner] True)
     = Inl BadRequest"
  "getEventList sampleEnv anonymousViewer [] (sampleDb [userlessRunner] True)
     = Inr [springCupSummary 1 (Some [])]"
  by (simp_all add: getEvent_def populatedForDetail_def populateMemberOf_def List.map_filter_simps
      filteredEvent_def selectRunner_def read_defs sample_defs)

text \<open>
  Claim C1 at an event with four runners in this order: a private runner, the viewer's
  own private entry, a runner of visibility club whose user shares a club with the
  viewer, and a public runner. The rule table admits the club runner. For the standard
  viewer the listing returns the last three, in the stored order. The detail view returns
  the club runner only if the string form of the populated club document is the club's
  id; with a string form that shows the document's fields it returns the viewer's own
  entry and the public runner. An anonymous viewer gets the public runner in both views.
\<close>

theorem getEvent_club_clause_on_documents:
  "ruleTable sampleViewer (visibility clubRunner) (pu_id bob) (set (pu_memberOf bob))
   \<and> getEventList sampleEnv sampleViewer []
         (sampleDb [privateRunner, ownPrivateRunner, clubRunner, publicRunner] True)
       = Inr [springCupSummary 4
               (Some [\<lparr>rs_user = pu_id vic, rs_displayName = ''Vic'', numberMaps = 0\<rparr>,
                      \<lparr>rs_user = pu_id bob, rs_displayName = ''Bob'', numberMaps = 1\<rparr>,
                      \<lparr>rs_user = pu_id cyd, rs_displayName = ''Cyd'', numberMaps = 0\<rparr>])]
   \<and> getEvent docToString sampleViewer ''5c00000000000000000000e1''
         (sampleDb [privateRunner, ownPrivateRunner, clubRunner, publicRunner] True)
       = Inr (springCup (if docToString clubABC = c_id clubABC
                         then [ownPrivateRunnerInDetail, clubRunnerInDetail, publicRunnerInDetail]
                         else [ownPrivateRunnerInDetail, publicRunnerInDetail]) True)
   \<and> getEvent renderedClub sampleViewer ''5c00000000000000000000e1''
         (sampleDb [privateRunner, ownPrivateRunner, clubRunner, publicRunner] True)
       = Inr (springCup [ownPrivateRunnerInDetail, publicRunnerInDetail] True)
   \<and> getEventList sampleEnv anonymousViewer []
         (sampleDb [privateRunner, ownPrivateRunner, clubRunner, publicRunner] True)
       = Inr [springCupSummary 4
               (Some [\<lparr>rs_user = pu_id cyd, rs_displayName = ''Cyd'', numberMaps = 0\<rparr>])]
   \<and> getEvent docToString anonymousViewer ''5c00000000000000000000e1''
         (sampleDb [privateRunner, ownPrivateRunner, clubRunner, publicRunner] True)
       = Inr (springCup [publicRunnerInDetail] True)"
proof -
  let ?db = "sampleDb [privateRunner, ownPrivateRunner, clubRunner, publicRunner] True"
  have table: "ruleTable sampleViewer (visibility clubRunner) (pu_id bob) (set (pu_memberOf bob))"
    by (simp add: ruleTable_def sample_defs)
  have listing: "getEventList sampleEnv sampleViewer [] ?db
       = Inr [springCupSummary 4
               (Some [\<lparr>rs_user = pu_id vic, rs_displayName = ''Vic'', numberMaps = 0\<rparr>,
                      \<lparr>rs_user = pu_id bob, rs_displayName = ''Bob'', numberMaps = 1\<rparr>,
                      \<lparr>rs_user = pu_id cyd, rs_displayName = ''Cyd'', numberMaps = 0\<rparr>])]"
    "getEventList sampleEnv anonymousViewer [] ?db
       = Inr [springCupSummary 4
               (Some [\<lparr>rs_user = pu_id cyd, rs_displayName = ''Cyd'', numberMaps = 0\<rparr>])]"
    by (simp_all add: read_defs sample_defs)
  have valid: "isValidObjectID ''5c00000000000000000000e1''"
    by (simp add: isValidObjectID_def isHexDigit_def)
  have detail: "getEvent docToString sampleViewer ''5c00000000000000000000e1'' ?db
       = Inr (springCup (if docToString clubABC = c_id clubABC
                         then [ownPrivateRunnerInDetail, clubRunnerInDetail, publicRunnerInDetail]
                         else [ownPrivateRunnerInDetail, publicRunnerInDetail]) True)"
    "getEvent docToString anonymousViewer ''5c00000000000000000000e1'' ?db
       = Inr (springCup [publicRunnerInDetail] True)"
    using valid
    by (simp_all add: getEvent_def populatedForDetail_def populateRunners_def populateRunner_def
        populateUser_def populateMemberOf_def List.map_filter_simps filteredEvent_def
        selectRunner_def canSee_def requestorId_def requestorClubs_def clubsInclude_def Let_def
        sample_defs)
  have rendered: "getEvent renderedClub sampleViewer ''5c00000000000000000000e1'' ?db
       = Inr (springCup [ownPrivateRunnerInDetail, publicRunnerInDetail] True)"
    using valid
    by (simp add: getEvent_def populatedForDetail_def populateRunners_def populateRunner_def
        populateUser_def populateMemberOf_def List.map_filter_simps filteredEvent_def
        selectRunner_def canSee_def requestorId_def requestorClubs_def clubsInclude_def Let_def
        sample_defs)
  show ?thesis
    using table listing detail rendered by simp
qed

lemma find_SomeD: "find P xs = Some x \<Longrightarrow> x \<in> set xs \<and> P x"
  by (induction xs) (auto split: if_splits)

text \<open>
  A runner entry with a user that fails every clause of the rule table, on the club ids
  stored with its user, is hidden in the listing. It is hidden in the detail view as
  well, provided the string form of a club document is a club id of the viewer only for
  a club of the viewer.
\<close>

lemma user_populateRunner:
  "user (populateRunner f r) = f (user r)"
  "visibility (populateRunner f r) = visibility r"
  by (simp_all add: populateRunner_def)

lemma ruleTable_hidden_in_list:
  assumes "populateUser (db_users db) (user r) = Some runnerUser"
    and "\<not> ruleTable u (visibility r) (pu_id runnerUser) (set (pu_memberOf runnerUser))"
  shows "hiddenInList u db r"
  using assms
    canSee_rule_table [of "populateRunner (populateUser (db_users db)) r" runnerUser "\<lambda>clubId. clubId" u]
  by (simp add: hiddenInList_def user_populateRunner)

lemma in_map_filter: "(x \<in> set (List.map_filter f xs)) = (\<exists>y \<in> set xs. f y = Some x)"
  by (induction xs) (auto simp: List.map_filter_simps split: option.splits)

lemma in_populateMemberOf:
  "c \<in> set (pu_memberOf (populateMemberOf clubDocs d)) \<Longrightarrow> c_id c \<in> set (pu_memberOf d)"
  by (auto simp: populateMemberOf_def in_map_filter dest!: find_SomeD)

lemma ruleTable_hidden_in_detail:
  assumes "populateUser (db_users db) (user r) = Some runnerUser"
    and "\<not> ruleTable u (visibility r) (pu_id runnerUser) (set (pu_memberOf runnerUser))"
    and "\<And>c. docToString c \<in> set (memberOf u) \<Longrightarrow> c_id c \<in> set (memberOf u)"
  shows "hiddenInDetail docToString u db r"
proof -
  let ?p = "populateMemberOf (db_clubs db) runnerUser"
  let ?f = "\<lambda>ref. map_option (populateMemberOf (db_clubs db)) (populateUser (db_users db) ref)"
  have pu: "user (populateRunner ?f r) = Some ?p"
    using assms(1) by (simp add: user_populateRunner)
  have id: "pu_id ?p = pu_id runnerUser"
    by (simp add: populateMemberOf_def)
  have clubs: "set (memberOf u) \<inter> docToString ` set (pu_memberOf ?p) \<noteq> {}
      \<Longrightarrow> set (memberOf u) \<inter> set (pu_memberOf runnerUser) \<noteq> {}"
    using assms(3) in_populateMemberOf [of _ "db_clubs db" runnerUser] by blast
  have "\<not> ruleTable u (visibility r) (pu_id runnerUser) (docToString ` set (pu_memberOf ?p))"
    using assms(2) clubs unfolding ruleTable_def by blast
  then show ?thesis
    using canSee_rule_table [OF pu, of docToString u]
    by (simp add: hiddenInDetail_def user_populateRunner id)
qed

text \<open>
  Claim C2, as amended. Take two stores with the same users and clubs. When their events
  differ only in runners hidden from the viewer in the detail view, getEvent answers the
  same on both. When their events differ only in runners hidden from the viewer in the
  listing, store the same number of runners, and the query has no accepted \<open>runners\<close>
  filter, getEventList answers the same on both.
\<close>

theorem hidden_runner_noninterference:
  assumes "db_users db1 = db_users db2" and "db_clubs db1 = db_clubs db2"
  shows "(list_all2 (differOnlyIn (hiddenInDetail docToString u db1)) (db_events db1) (db_events db2) \<longrightarrow>
            getEvent docToString u eventid db1 = getEvent docToString u eventid db2)
    \<and> (list_all2 (\<lambda>e1 e2. differOnlyIn (hiddenInList u db1) e1 e2 \<and> sameNumberOfRunners e1 e2)
            (db_events db1) (db_events db2)
         \<and> \<not> filtersOnRunners query \<longrightarrow>
            getEventList env u query db1 = getEventList env u query db2)"
  using getEvent_hidden [OF assms] getEventList_hidden [OF assms(1)] by blast

text \<open>
  Claim C2 as stated fails in the listing, for an anonymous viewer and an event with a
  public and a private runner. \<open>totalRunners\<close> is 2 with the private runner and 1
  without it. With the private runner replaced by the private runner of another user the
  counts agree, and the \<open>runners\<close> filter on the first user lists the event in one store
  and not in the other.
\<close>

theorem hidden_runner_listing_counterexample:
  "list_all2 (differOnlyIn (hiddenInList anonymousViewer (sampleDb [publicRunner, privateRunner] True)))
       (db_events (sampleDb [publicRunner, privateRunner] True)) (db_events (sampleDb [publicRunner] True))
   \<and> getEventList sampleEnv anonymousViewer [] (sampleDb [publicRunner, privateRunner] True)
       = Inr [springCupSummary 2 (Some [\<lparr>rs_user = pu_id cyd, rs_displayName = ''Cyd'', numberMaps = 0\<rparr>])]
   \<and> getEventList sampleEnv anonymousViewer [] (sampleDb [publicRunner] True)
       = Inr [springCupSummary 1 (Some [\<lparr>rs_user = pu_id cyd, rs_displayName = ''Cyd'', numberMaps = 0\<rparr>])]
   \<and> list_all2 (\<lambda>e1 e2. differOnlyIn (hiddenInList anonymousViewer (sampleDb [publicRunner, privateRunner] True)) e1 e2
                   \<and> sameNumberOfRunners e1 e2)
       (db_events (sampleDb [publicRunner, privateRunner] True))
       (db_events (sampleDb [publicRunner, otherPrivateRunner] True))
   \<and> getEventList sampleEnv anonymousViewer [(''runners'', ''5c0000000000000000000002'')]
         (sampleDb [publicRunner, privateRunner] True)
       = Inr [springCupSummary 2 (Some [\<lparr>rs_user = pu_id cyd, rs_displayName = ''Cyd'', numberMaps = 0\<rparr>])]
   \<and> getEventList sampleEnv anonymousViewer [(''runners'', ''5c0000000000000000000002'')]
         (sampleDb [publicRunner, otherPrivateRunner] True)
       = Inr []"
proof -
  have rel: "list_all2 (differOnlyIn (hiddenInList anonymousViewer (sampleDb [publicRunner, privateRunner] True)))
       (db_events (sampleDb [publicRunner, privateRunner] True)) (db_events (sampleDb [publicRunner] True))"
    "list_all2 (\<lambda>e1 e2. differOnlyIn (hiddenInList anonymousViewer (sampleDb [publicRunner, privateRunner] True)) e1 e2
                   \<and> sameNumberOfRunners e1 e2)
       (db_events (sampleDb [publicRunner, privateRunner] True))
       (db_events (sampleDb [publicRunner, otherPrivateRunner] True))"
    by (simp_all add: differOnlyIn_def hiddenInList_def sameNumberOfRunners_def canSee_def
        populateRunner_def sample_defs)
  have l: "getEventList sampleEnv anonymousViewer [] (sampleDb [publicRunner, privateRunner] True)
       = Inr [springCupSummary 2 (Some [\<lparr>rs_user = pu_id cyd, rs_displayName = ''Cyd'', numberMaps = 0\<rparr>])]"
    "getEventList sampleEnv anonymousViewer [] (sampleDb [publicRunner] True)
       = Inr [springCupSummary 1 (Some [\<lparr>rs_user = pu_id cyd, rs_displayName = ''Cyd'', numberMaps = 0\<rparr>])]"
    "getEventList sampleEnv anonymousViewer [(''runners'', ''5c0000000000000000000002'')]
         (sampleDb [publicRunner, privateRunner] True)
       = Inr [springCupSummary 2 (Some [\<lparr>rs_user = pu_id cyd, rs_displayName = ''Cyd'', numberMaps = 0\<rparr>])]"
    "getEventList sampleEnv anonymousViewer [(''runners'', ''5c0000000000000000000002'')]
         (sampleDb [publicRunner, otherPrivateRunner] True)
       = Inr []"
    by (simp_all add: read_defs sample_defs)
  show ?thesis using rel l by simp
qed

text \<open>
  A standard viewer and a private runner of another user: the detail view with and
  without the runner, and the listing with that runner and with the private runner of a
  third user.
\<close>

theorem hidden_runner_noninterference_witness:
  "db_users (sampleDb [publicRunner, privateRunner] True) = db_users (sampleDb [publicRunner] True)
   \<and> db_clubs (sampleDb [publicRunner, privateRunner] True) = db_clubs (sampleDb [publicRunner] True)
   \<and> list_all2 (differOnlyIn (hiddenInDetail shortName sampleViewer (sampleDb [publicRunner, privateRunner] True)))
       (db_events (sampleDb [publicRunner, privateRunner] True)) (db_events (sampleDb [publicRunner] True))
   \<and> getEvent shortName sampleViewer ''5c00000000000000000000e1'' (sampleDb [publicRunner, privateRunner] True)
       = getEvent shortName sampleViewer ''5c00000000000000000000e1'' (sampleDb [publicRunner] True)
   \<and> list_all2 (\<lambda>e1 e2. differOnlyIn (hiddenInList sampleViewer (sampleDb [privateRunner, publicRunner] True)) e1 e2
                   \<and> sameNumberOfRunners e1 e2)
       (db_events (sampleDb [privateRunner, publicRunner] True))
       (db_events (sampleDb [publicRunner, otherPrivateRunner] True))
   \<and> \<not> filtersOnRunners [(''name'', ''Spring'')]
   \<and> getEventList sampleEnv sampleViewer [(''name'', ''Spring'')] (sampleDb [privateRunner, publicRunner] True)
       = getEventList sampleEnv sampleViewer [(''name'', ''Spring'')] (sampleDb [publicRunner, otherPrivateRunner] True)"
proof -
  have same: "db_users (sampleDb [publicRunner, privateRunner] True) = db_users (sampleDb [publicRunner] True)"
    "db_clubs (sampleDb [publicRunner, privateRunner] True) = db_clubs (sampleDb [publicRunner] True)"
    "db_users (sampleDb [privateRunner, publicRunner] True) = db_users (sampleDb [publicRunner, otherPrivateRunner] True)"
    "db_clubs (sampleDb [privateRunner, publicRunner] True) = db_clubs (sampleDb [publicRunner, otherPrivateRunner] True)"
    by (simp_all add: sampleDb_def)
  have d: "list_all2 (differOnlyIn (hiddenInDetail shortName sampleViewer (sampleDb [publicRunner, privateRunner] True)))
       (db_events (sampleDb [publicRunner, privateRunner] True)) (db_events (sampleDb [publicRunner] True))"
    by (simp add: differOnlyIn_def hiddenInDetail_def canSee_def populateRunner_def populateUser_def
        populateMemberOf_def List.map_filter_simps requestorId_def requestorClubs_def
        clubsInclude_def sample_defs)
  have l: "list_all2 (\<lambda>e1 e2. differOnlyIn (hiddenInList sampleViewer (sampleDb [privateRunner, publicRunner] True)) e1 e2
                   \<and> sameNumberOfRunners e1 e2)
       (db_events (sampleDb [privateRunner, publicRunner] True))
       (db_events (sampleDb [publicRunner, otherPrivateRunner] True))"
    by (simp add: differOnlyIn_def hiddenInList_def sameNumberOfRunners_def canSee_def
        populateRunner_def populateUser_def requestorId_def requestorClubs_def clubsInclude_def
        sample_defs)
  have q: "\<not> filtersOnRunners [(''name'', ''Spring'')]"
    by (simp add: filtersOnRunners_def)
  show ?thesis
    using same(1,2) d l q
      hidden_runner_noninterference [OF same(1,2), of shortName sampleViewer
        "''5c00000000000000000000e1''" "[(''name'', ''Spring'')]" sampleEnv]
      hidden_runner_noninterference [OF same(3,4), of shortName sampleViewer
        "''5c00000000000000000000e1''" "[(''name'', ''Spring'')]" sampleEnv]
    by blast
qed


lemma setKey_keeps:
  "k \<noteq> k0 \<Longrightarrow> (k0, c0) \<in> set crit \<Longrightarrow> (k0, c0) \<in> set (setKey k c crit)"
proof -
  assume ne: "k \<noteq> k0" and mem: "(k0, c0) \<in> set crit"
  have "(\<lambda>(k', c'). if k' = k then (k', c) else (k', c')) (k0, c0) = (k0, c0)"
    using ne by simp
  then have "(k0, c0) \<in> (\<lambda>(k', c'). if k' = k then (k', c) else (k', c')) ` set crit"
    using mem by (metis (no_types, lifting) image_eqI)
  then show ?thesis using mem by (simp add: setKey_def)
qed

lemma filterStep_keeps_active:
  assumes "(''active'', CTrue) \<in> set crit"
  shows "(''active'', CTrue) \<in> set (filterStep kv crit)"
proof -
  have ne: "fst kv \<in> set validStringFilters \<or> fst kv \<in> set validIdFilters \<Longrightarrow> fst kv \<noteq> ''active''"
    by (auto simp: validStringFilters_def validIdFilters_def)
  have r: "''runners'' \<noteq> ''active''" by simp
  show ?thesis
    using assms ne
    by (auto simp: filterStep_def Let_def intro!: setKey_keeps)
qed

lemma foldl_filterStep_keeps_active:
  "(''active'', CTrue) \<in> set crit \<Longrightarrow>
     (''active'', CTrue) \<in> set (foldl (\<lambda>c kv. filterStep kv c) crit query)"
  by (induction query arbitrary: crit) (simp_all add: filterStep_keeps_active)

lemma eventSearchCriteria_active:
  "(''active'', CTrue) \<in> set (eventSearchCriteria env query)"
proof -
  have base: "(''active'', CTrue) \<in> set (foldl (\<lambda>c kv. filterStep kv c) [(''active'', CTrue)] query)"
    by (rule foldl_filterStep_keeps_active) simp
  have lat: "''locLat'' \<noteq> ''active''" and long: "''locLong'' \<noteq> ''active''"
    by simp_all
  show ?thesis
    using base
    by (auto simp: eventSearchCriteria_def Let_def split: option.splits
        intro!: setKey_keeps [OF lat] setKey_keeps [OF long])
qed

lemma matchesCriteria_active:
  "matchesCriteria env (eventSearchCriteria env query) e \<Longrightarrow> active e"
  using eventSearchCriteria_active [of env query]
  by (auto simp: matchesCriteria_def list_all_iff satisfiesCond_def)

lemma d_id_eventDetailsOf: "eventDetailsOf u e = Some d \<Longrightarrow> d_id d = e_id e"
  by (auto simp: eventDetailsOf_def Let_def split: if_splits option.splits)

lemma e_id_populatedForList: "e_id (populatedForList db e) = e_id e"
  by (simp add: populatedForList_def populateRunners_def)

lemma mapThrowing_SomeD:
  "mapThrowing f xs = Some ys \<Longrightarrow> y \<in> set ys \<Longrightarrow> \<exists>x \<in> set xs. f x = Some y"
  by (induction xs arbitrary: ys) (auto split: option.splits)

lemma find_unique:
  "distinct (map f xs) \<Longrightarrow> x \<in> set xs \<Longrightarrow> find (\<lambda>y. f y = f x \<and> Q y) xs = (if Q x then Some x else None)"
  by (induction xs) (auto simp: find_None_iff image_iff)

lemma getEventList_active:
  assumes "getEventList env u query db = Inr ds" "d \<in> set ds"
  shows "\<exists>e' \<in> set (db_events db). active e' \<and> eventDetailsOf u (populatedForList db e') = Some d"
proof -
  have "mapThrowing (\<lambda>stored. eventDetailsOf u (populatedForList db stored))
          (filter (matchesCriteria env (eventSearchCriteria env query)) (db_events db)) = Some ds"
    using assms(1) by (simp add: getEventList_def split: if_splits option.splits)
  then obtain x where x: "x \<in> set (db_events db)" "matchesCriteria env (eventSearchCriteria env query) x"
      "eventDetailsOf u (populatedForList db x) = Some d"
    using mapThrowing_SomeD [OF _ assms(2)] by fastforce
  then show ?thesis
    using matchesCriteria_active [of env query x] by blast
qed

text \<open>
  Claim C10. An event whose \<open>active\<close> flag is false is not found by getEvent, and no
  summary of getEventList is made from it, whatever the viewer and the query: the criteria
  always keep \<open>active: true\<close>.
\<close>

theorem soft_deleted_event_invisible:
  assumes "e \<in> set (db_events db)" and "\<not> active e" and "distinct (map e_id (db_events db))"
    and "isValidObjectID (e_id e)"
  shows "getEvent docToString u (e_id e) db = Inl NotFound
    \<and> (\<forall>ds. getEventList env u query db = Inr ds \<longrightarrow>
          e_id e \<notin> d_id ` set ds
          \<and> (\<forall>d \<in> set ds. \<exists>e' \<in> set (db_events db).
                active e' \<and> eventDetailsOf u (populatedForList db e') = Some d))"
proof -
  have "find (\<lambda>y. e_id y = e_id e \<and> active y = True) (db_events db) = None"
    using find_unique [OF assms(3) assms(1), of "\<lambda>y. active y = True"] assms(2) by simp
  then have detail: "getEvent docToString u (e_id e) db = Inl NotFound"
    using assms(4) by (simp add: getEvent_def)
  have listing: "e_id e \<notin> d_id ` set ds
      \<and> (\<forall>d \<in> set ds. \<exists>e' \<in> set (db_events db).
            active e' \<and> eventDetailsOf u (populatedForList db e') = Some d)"
    if ok: "getEventList env u query db = Inr ds" for ds
  proof
    show "e_id e \<notin> d_id ` set ds"
    proof
      assume "e_id e \<in> d_id ` set ds"
      then obtain d where d: "d \<in> set ds" "d_id d = e_id e" by auto
      obtain e' where e': "e' \<in> set (db_events db)" "active e'"
          "eventDetailsOf u (populatedForList db e') = Some d"
        using getEventList_active [OF ok d(1)] by blast
      have "e_id e' = e_id e"
        using d(2) d_id_eventDetailsOf [OF e'(3)] by (simp add: e_id_populatedForList)
      then have "e' = e"
        using assms(1,3) e'(1) by (meson distinct_map inj_onD)
      then show False using e'(2) assms(2) by simp
    qed
    show "\<forall>d \<in> set ds. \<exists>e' \<in> set (db_events db).
            active e' \<and> eventDetailsOf u (populatedForList db e') = Some d"
      using getEventList_active [OF ok] by blast
  qed
  show ?thesis using detail listing by blast
qed

text \<open>A soft-deleted event, asked for by an admin.\<close>

theorem soft_deleted_event_invisible_witness:
  "springCup [publicRunner] False \<in> set (db_events (sampleDb [publicRunner] False))
   \<and> \<not> active (springCup [publicRunner] False)
   \<and> distinct (map e_id (db_events (sampleDb [publicRunner] False)))
   \<and> isValidObjectID (e_id (springCup [publicRunner] False))
   \<and> getEvent shortName \<lparr>role = Admin, uid = ''5c0000000000000000000009'', memberOf = []\<rparr>
        ''5c00000000000000000000e1'' (sampleDb [publicRunner] False) = Inl NotFound
   \<and> getEventList sampleEnv \<lparr>role = Admin, uid = ''5c0000000000000000000009'', memberOf = []\<rparr>
        [(''name'', ''Spring'')] (sampleDb [publicRunner] False) = Inr []"
proof -
  have h: "springCup [publicRunner] False \<in> set (db_events (sampleDb [publicRunner] False))"
    "\<not> active (springCup [publicRunner] False)"
    "distinct (map e_id (db_events (sampleDb [publicRunner] False)))"
    "isValidObjectID (e_id (springCup [publicRunner] False))"
    by (simp_all add: sampleDb_def springCup_def isValidObjectID_def isHexDigit_def)
  have l: "getEventList sampleEnv \<lparr>role = Admin, uid = ''5c0000000000000000000009'', memberOf = []\<rparr>
        [(''name'', ''Spring'')] (sampleDb [publicRunner] False) = Inr []"
    by (simp add: read_defs sample_defs)
  have id: "e_id (springCup [publicRunner] False) = ''5c00000000000000000000e1''"
    by (simp add: springCup_def)
  show ?thesis
    using h l
      soft_deleted_event_invisible [OF h, of shortName
        "\<lparr>role = Admin, uid = ''5c0000000000000000000009'', memberOf = []\<rparr>"]
    unfolding id by blast
qed

section \<open>Properties of the requests that change the store\<close>

lemmas store_sample_defs = sampleEvent_def sampleStore_def emptyBody_def sampleNow_def
  userA_def userB_def eventA_def eventB_def linkA_def linkB_def requester_def runnerOf_def
  sampleLink_def

lemma isValid_samples:
  "isValidObjectID eventA" "isValidObjectID eventB" "isValidObjectID linkA" "isValidObjectID linkB"
  "isValidObjectID userA" "isValidObjectID userB"
  by (simp_all add: isValidObjectID_def isHexDigit_def store_sample_defs)

lemma deletedAt_sample: "deletedAt sampleNow = ''deleted:03112019@0905''"
  by (simp add: deletedAt_def sampleNow_def lastTwo_def showNat.simps digitChar_def)

lemma map_e_id_replaceEvent: "map e_id (replaceEvent e' docs) = map e_id docs"
  by (induction docs) (simp_all add: replaceEvent_def)







lemma includesId_runnerObjectIds:
  "includesId sem (runnerObjectIds rs) (IdString x) \<Longrightarrow> Some x \<in> r_user ` set rs"
  by (cases sem)
     (auto simp: runnerObjectIds_def list_ex_iff image_iff split: option.splits)

lemma allowedToUpdate_by_design:
  "role u = Admin \<or> (role u = Standard \<and> uid u = owner e) \<Longrightarrow> allowedToUpdate k u e"
  by (auto simp: allowedToUpdate_def Let_def)

lemma not_allowedToUpdate:
  assumes "role u \<noteq> Admin"
    and "role u \<noteq> Standard \<or> (uid u \<noteq> owner e \<and> Some (uid u) \<notin> r_user ` set (runners e))"
  shows "\<not> allowedToUpdate k u e"
  using assms includesId_runnerObjectIds [of "mappedIncludes k" "runners e" "uid u"]
  by (auto simp: allowedToUpdate_def Let_def)

lemma updateEvent_not_allowed:
  assumes "find (\<lambda>d. e_id d = eventid) (eventDocs s) = Some e" and "\<not> allowedToUpdate k u e"
  shows "snd (updateEvent k castOk u eventid body s) = s"
    and "\<exists>err. fst (updateEvent k castOk u eventid body s) = Inl err"
    and "updateRequestError u eventid body s = None \<Longrightarrow>
           updateEvent k castOk u eventid body s = (Inl Unauthorized, s)"
  using assms by (auto simp: updateEvent_def split: option.splits)

lemma updateEvent_allowed:
  assumes "find (\<lambda>d. e_id d = eventid) (eventDocs s) = Some e" and "allowedToUpdate k u e"
    and "updateRequestError u eventid body s = None"
  shows "fst (updateEvent k castOk u eventid body s) \<noteq> Inl Unauthorized"
  using assms by (auto simp: updateEvent_def Let_def split: option.splits)

text \<open>
  Claim C6, as amended. For an event found by its id: a guest is rejected with
  \<open>Unauthorized\<close>; an admin, and a standard-role user who owns the event, pass the
  authorization check; a requester who is not an admin and either has not the standard
  role or is neither the owner nor named by a runner entry fails it. A request that fails
  the check leaves the store unchanged and is answered with an error, which is
  \<open>Unauthorized\<close> when the checks made before (id, date format, duplicate date and
  name) pass; a request that passes it and those checks is not answered
  \<open>Unauthorized\<close>. Whether a standard-role runner who is not the owner passes depends on
  how \<open>includes\<close> compares the runners' ObjectIDs with the requester's id string, and is
  left open here.
\<close>

theorem updateEvent_authorization:
  assumes found: "find (\<lambda>d. e_id d = eventid) (eventDocs s) = Some e"
  shows "(role u = Guest \<longrightarrow> updateEvent k castOk u eventid body s = (Inl Unauthorized, s))
    \<and> (role u = Admin \<or> (role u = Standard \<and> uid u = owner e) \<longrightarrow> allowedToUpdate k u e)
    \<and> (role u \<noteq> Admin
        \<and> (role u \<noteq> Standard \<or> (uid u \<noteq> owner e \<and> Some (uid u) \<notin> r_user ` set (runners e)))
        \<longrightarrow> \<not> allowedToUpdate k u e)
    \<and> (\<not> allowedToUpdate k u e \<longrightarrow>
          snd (updateEvent k castOk u eventid body s) = s
          \<and> (\<exists>err. fst (updateEvent k castOk u eventid body s) = Inl err)
          \<and> (updateRequestError u eventid body s = None \<longrightarrow>
                updateEvent k castOk u eventid body s = (Inl Unauthorized, s)))
    \<and> (allowedToUpdate k u e \<and> updateRequestError u eventid body s = None \<longrightarrow>
          fst (updateEvent k castOk u eventid body s) \<noteq> Inl Unauthorized)"
proof -
  have guest: "role u = Guest \<longrightarrow> updateEvent k castOk u eventid body s = (Inl Unauthorized, s)"
    by (simp add: updateEvent_def updateRequestError_def)
  show ?thesis
    using guest allowedToUpdate_by_design [of u e k] not_allowedToUpdate [of u e k]
      updateEvent_not_allowed [OF found, where k = k and u = u and castOk = castOk and body = body]
      updateEvent_allowed [OF found, where k = k and u = u and castOk = castOk and body = body]
    by blast
qed

text \<open>
  The standard-role owner renames the event; another standard-role user, neither owner nor
  runner, is rejected.
\<close>

theorem updateEvent_authorization_witness:
  "updateEvent \<lparr>mappedIncludes = SameValueZero, storedIncludes = CastToString\<rparr> (\<lambda>b. True)
      (requester Standard userA) eventA (emptyBody\<lparr>b_name := Some ''Autumn Cup''\<rparr>)
      (sampleStore [sampleEvent eventA userA ''Spring Cup'' [] [runnerOf userA] True] [])
     = (Inr (sampleEvent eventA userA ''Autumn Cup'' [] [runnerOf userA] True),
        sampleStore [sampleEvent eventA userA ''Autumn Cup'' [] [runnerOf userA] True] [])
   \<and> allowedToUpdate \<lparr>mappedIncludes = SameValueZero, storedIncludes = CastToString\<rparr>
        (requester Standard userA) (sampleEvent eventA userA ''Spring Cup'' [] [runnerOf userA] True)
   \<and> updateEvent \<lparr>mappedIncludes = SameValueZero, storedIncludes = CastToString\<rparr> (\<lambda>b. True)
      (requester Standard userB) eventA (emptyBody\<lparr>b_name := Some ''Autumn Cup''\<rparr>)
      (sampleStore [sampleEvent eventA userA ''Spring Cup'' [] [runnerOf userA] True] [])
     = (Inl Unauthorized, sampleStore [sampleEvent eventA userA ''Spring Cup'' [] [runnerOf userA] True] [])"
proof -
  let ?k = "\<lparr>mappedIncludes = SameValueZero, storedIncludes = CastToString\<rparr>"
  let ?e = "sampleEvent eventA userA ''Spring Cup'' [] [runnerOf userA] True"
  let ?s = "sampleStore [?e] []"
  let ?b = "emptyBody\<lparr>b_name := Some ''Autumn Cup''\<rparr>"
  have found: "find (\<lambda>d. e_id d = eventA) (eventDocs ?s) = Some ?e"
    by (simp add: store_sample_defs)
  note inst = updateEvent_authorization [OF found, where k = ?k and castOk = "\<lambda>b. True" and body = ?b]
  have pre: "updateRequestError (requester Standard userB) eventA ?b ?s = None"
    "updateRequestError (requester Standard userA) eventA ?b ?s = None"
    using isValid_samples(1)
    by (simp_all add: updateRequestError_def truthy_def)
       (simp_all add: store_sample_defs)
  have a: "role (requester Standard userA) = Standard \<and> uid (requester Standard userA) = owner ?e"
    by (simp add: store_sample_defs)
  have b: "role (requester Standard userB) \<noteq> Admin"
    "uid (requester Standard userB) \<noteq> owner ?e
       \<and> Some (uid (requester Standard userB)) \<notin> r_user ` set (runners ?e)"
    by (simp_all add: store_sample_defs)
  have allowed: "allowedToUpdate ?k (requester Standard userA) ?e"
    using inst [where u = "requester Standard userA"] a by blast
  have rejected: "updateEvent ?k (\<lambda>b. True) (requester Standard userB) eventA ?b ?s = (Inl Unauthorized, ?s)"
    using inst [where u = "requester Standard userB"] b pre(1) by blast
  have updated: "updateEvent ?k (\<lambda>b. True) (requester Standard userA) eventA ?b ?s
     = (Inr (sampleEvent eventA userA ''Autumn Cup'' [] [runnerOf userA] True),
        sampleStore [sampleEvent eventA userA ''Autumn Cup'' [] [runnerOf userA] True] [])"
    using found allowed pre(2)
    by (simp add: updateEvent_def Let_def numberOfEventFields_def countIf_def)
       (simp add: store_sample_defs setEventFields_def whitelisted_def replaceEvent_def
          mirrorIncludes_def updateMany_def truthy_def)
  show ?thesis using allowed rejected updated by simp
qed

text \<open>
  Claim C6 as stated fails for a guest who owns the event and is one of its runners: the
  request is rejected, whichever way \<open>includes\<close> compares.
\<close>

theorem updateEvent_guest_owner_counterexample:
  "role (requester Guest userA) = Guest
   \<and> uid (requester Guest userA) = owner (sampleEvent eventA userA ''Spring Cup'' [] [runnerOf userA] True)
   \<and> Some (uid (requester Guest userA))
        \<in> r_user ` set (runners (sampleEvent eventA userA ''Spring Cup'' [] [runnerOf userA] True))
   \<and> updateEvent \<lparr>mappedIncludes = CastToString, storedIncludes = CastToString\<rparr> (\<lambda>b. True)
        (requester Guest userA) eventA (emptyBody\<lparr>b_name := Some ''Autumn Cup''\<rparr>)
        (sampleStore [sampleEvent eventA userA ''Spring Cup'' [] [runnerOf userA] True] [])
      = (Inl Unauthorized, sampleStore [sampleEvent eventA userA ''Spring Cup'' [] [runnerOf userA] True] [])
   \<and> updateEvent \<lparr>mappedIncludes = SameValueZero, storedIncludes = CastToString\<rparr> (\<lambda>b. True)
        (requester Guest userA) eventA (emptyBody\<lparr>b_name := Some ''Autumn Cup''\<rparr>)
        (sampleStore [sampleEvent eventA userA ''Spring Cup'' [] [runnerOf userA] True] [])
      = (Inl Unauthorized, sampleStore [sampleEvent eventA userA ''Spring Cup'' [] [runnerOf userA] True] [])"
  by (simp add: updateEvent_def updateRequestError_def)
     (simp add: store_sample_defs)


lemma find_None_conv: "(find P xs = None) = (\<forall>x \<in> set xs. \<not> P x)"
  by (auto simp: find_None_iff)

lemma leap_day_passes: "dateMatches ''2019-02-29''"
  by (simp add: monthDay_def day29_def isDigit_def)

lemma createEvent_rejection_keeps_store:
  "fst (createEvent q schemaOk u body newId s) = Inl err \<Longrightarrow> snd (createEvent q schemaOk u body newId s) = s"
  by (auto simp: createEvent_def Let_def split: if_splits option.splits)

lemma trim_samples:
  "trim ''Spring Cup'' = ''Spring Cup''"
  "trim '' Spring Cup'' = ''Spring Cup''"
  "trim ''Spring Cup deleted:03112019@0905'' = ''Spring Cup deleted:03112019@0905''"
  by (simp_all add: trim_def isSpace_def)

lemma createEvent_guest:
  "role u = Guest \<Longrightarrow> createEvent q schemaOk u body newId s = (Inl Unauthorized, s)"
  by (simp add: createEvent_def)

lemma createEvent_missing_field:
  assumes "role u \<noteq> Guest"
    and "b_date body = None \<or> b_date body = Some [] \<or> b_name body = None \<or> b_name body = Some []"
  shows "createEvent q schemaOk u body newId s = (Inl BadRequest, s)"
  using assms by (auto simp: createEvent_def truthy_def)

lemma createEvent_checked:
  assumes "role u \<noteq> Guest" and "b_date body = Some d" and "b_name body = Some n"
    and "d \<noteq> []" and "n \<noteq> []"
  shows "createEvent q schemaOk u body newId s =
     (if \<not> dateMatches d then (Inl BadRequest, s)
      else if \<exists>e \<in> set (eventDocs s). date e = d \<and> name e = nameInQuery q n then (Inl BadRequest, s)
      else if saveRejected schemaOk (eventToCreate u body newId s d n) s then (Inl BadRequest, s)
      else (Inr (eventToCreate u body newId s d n),
            s\<lparr>eventDocs := eventDocs s @ [eventToCreate u body newId s d n],
              linkedEventDocs :=
                updateMany (\<lambda>l. l_id l \<in> set (linkedTo (eventToCreate u body newId s d n)))
                  (\<lambda>l. l\<lparr>l_includes := addToSet newId (l_includes l)\<rparr>) (linkedEventDocs s)\<rparr>))"
proof -
  have t: "truthy (Some d)" "truthy (Some n)"
    using assms(4,5) by (simp_all add: truthy_def)
  have ex: "(\<exists>e \<in> set (eventDocs s). date e = d \<and> name e = nameInQuery q n)
      = (find (\<lambda>e. date e = d \<and> name e = nameInQuery q n) (eventDocs s) \<noteq> None)"
    by (simp add: find_None_conv)
  show ?thesis
    unfolding ex
    by (cases "find (\<lambda>e. date e = d \<and> name e = nameInQuery q n) (eventDocs s)")
       (simp_all add: createEvent_def Let_def assms(1,2,3) t)
qed

text \<open>
  Claim C9, as amended. A guest is answered \<open>Unauthorized\<close>; a request without a
  non-empty date and name, or whose date contains no match of the date pattern, is
  answered \<open>BadRequest\<close>. Otherwise the request is answered \<open>BadRequest\<close> when some
  stored event, active or not, has the date of the request and the name of the query
  filter: the name as sent, or trimmed when the mapper applies the schema's setters to
  filters. When none has, the request is answered \<open>BadRequest\<close> if the save is
  rejected, and else the new event is appended to the collection, active, with that date
  and the trimmed name. Every rejection leaves the store unchanged, and the date
  2019-02-29 passes the pattern.
\<close>

theorem createEvent_duplicate_check:
  "(role u = Guest \<longrightarrow> createEvent q schemaOk u body newId s = (Inl Unauthorized, s))
   \<and> (role u \<noteq> Guest
        \<and> (b_date body = None \<or> b_date body = Some [] \<or> b_name body = None \<or> b_name body = Some []) \<longrightarrow>
          createEvent q schemaOk u body newId s = (Inl BadRequest, s))
   \<and> (role u \<noteq> Guest \<and> b_date body = Some d \<and> b_name body = Some n \<and> d \<noteq> [] \<and> n \<noteq> [] \<longrightarrow>
        (\<not> dateMatches d \<longrightarrow> createEvent q schemaOk u body newId s = (Inl BadRequest, s))
        \<and> (dateMatches d \<and> (\<exists>e \<in> set (eventDocs s). date e = d \<and> name e = nameInQuery q n) \<longrightarrow>
              createEvent q schemaOk u body newId s = (Inl BadRequest, s))
        \<and> (dateMatches d \<and> \<not> (\<exists>e \<in> set (eventDocs s). date e = d \<and> name e = nameInQuery q n)
            \<and> saveRejected schemaOk (eventToCreate u body newId s d n) s \<longrightarrow>
              createEvent q schemaOk u body newId s = (Inl BadRequest, s))
        \<and> (dateMatches d \<and> \<not> (\<exists>e \<in> set (eventDocs s). date e = d \<and> name e = nameInQuery q n)
            \<and> \<not> saveRejected schemaOk (eventToCreate u body newId s d n) s \<longrightarrow>
              fst (createEvent q schemaOk u body newId s) = Inr (eventToCreate u body newId s d n)
              \<and> eventDocs (snd (createEvent q schemaOk u body newId s))
                  = eventDocs s @ [eventToCreate u body newId s d n]))
   \<and> date (eventToCreate u body newId s d n) = d
   \<and> name (eventToCreate u body newId s d n) = trim n
   \<and> active (eventToCreate u body newId s d n)
   \<and> nameInQuery True n = trim n
   \<and> nameInQuery False n = n
   \<and> (\<forall>err. fst (createEvent q schemaOk u body newId s) = Inl err \<longrightarrow>
         snd (createEvent q schemaOk u body newId s) = s)
   \<and> dateMatches ''2019-02-29''"
proof -
  have guest: "role u = Guest \<longrightarrow> createEvent q schemaOk u body newId s = (Inl Unauthorized, s)"
    by (simp add: createEvent_guest)
  have missing: "role u \<noteq> Guest
        \<and> (b_date body = None \<or> b_date body = Some [] \<or> b_name body = None \<or> b_name body = Some []) \<longrightarrow>
          createEvent q schemaOk u body newId s = (Inl BadRequest, s)"
  proof (intro impI)
    assume a: "role u \<noteq> Guest
        \<and> (b_date body = None \<or> b_date body = Some [] \<or> b_name body = None \<or> b_name body = Some [])"
    then have "role u \<noteq> Guest"
      and "b_date body = None \<or> b_date body = Some [] \<or> b_name body = None \<or> b_name body = Some []"
      by simp_all
    then show "createEvent q schemaOk u body newId s = (Inl BadRequest, s)"
      by (rule createEvent_missing_field)
  qed
  have checked: "role u \<noteq> Guest \<and> b_date body = Some d \<and> b_name body = Some n \<and> d \<noteq> [] \<and> n \<noteq> [] \<longrightarrow>
        (\<not> dateMatches d \<longrightarrow> createEvent q schemaOk u body newId s = (Inl BadRequest, s))
        \<and> (dateMatches d \<and> (\<exists>e \<in> set (eventDocs s). date e = d \<and> name e = nameInQuery q n) \<longrightarrow>
              createEvent q schemaOk u body newId s = (Inl BadRequest, s))
        \<and> (dateMatches d \<and> \<not> (\<exists>e \<in> set (eventDocs s). date e = d \<and> name e = nameInQuery q n)
            \<and> saveRejected schemaOk (eventToCreate u body newId s d n) s \<longrightarrow>
              createEvent q schemaOk u body newId s = (Inl BadRequest, s))
        \<and> (dateMatches d \<and> \<not> (\<exists>e \<in> set (eventDocs s). date e = d \<and> name e = nameInQuery q n)
            \<and> \<not> saveRejected schemaOk (eventToCreate u body newId s d n) s \<longrightarrow>
              fst (createEvent q schemaOk u body newId s) = Inr (eventToCreate u body newId s d n)
              \<and> eventDocs (snd (createEvent q schemaOk u body newId s))
                  = eventDocs s @ [eventToCreate u body newId s d n])"
  proof (intro impI)
    assume a: "role u \<noteq> Guest \<and> b_date body = Some d \<and> b_name body = Some n \<and> d \<noteq> [] \<and> n \<noteq> []"
    then have r: "role u \<noteq> Guest" "b_date body = Some d" "b_name body = Some n" "d \<noteq> []" "n \<noteq> []"
      by simp_all
    note c = createEvent_checked [OF r, of q schemaOk newId s]
    have 1: "\<not> dateMatches d \<longrightarrow> createEvent q schemaOk u body newId s = (Inl BadRequest, s)"
      by (simp add: c)
    have 2: "dateMatches d \<and> (\<exists>e \<in> set (eventDocs s). date e = d \<and> name e = nameInQuery q n) \<longrightarrow>
              createEvent q schemaOk u body newId s = (Inl BadRequest, s)"
      by (simp add: c)
    have 3: "dateMatches d \<and> \<not> (\<exists>e \<in> set (eventDocs s). date e = d \<and> name e = nameInQuery q n)
            \<and> saveRejected schemaOk (eventToCreate u body newId s d n) s \<longrightarrow>
              createEvent q schemaOk u body newId s = (Inl BadRequest, s)"
      by (simp add: c)
    have 4: "dateMatches d \<and> \<not> (\<exists>e \<in> set (eventDocs s). date e = d \<and> name e = nameInQuery q n)
            \<and> \<not> saveRejected schemaOk (eventToCreate u body newId s d n) s \<longrightarrow>
              fst (createEvent q schemaOk u body newId s) = Inr (eventToCreate u body newId s d n)
              \<and> eventDocs (snd (createEvent q schemaOk u body newId s))
                  = eventDocs s @ [eventToCreate u body newId s d n]"
      by (simp add: c)
    show "(\<not> dateMatches d \<longrightarrow> createEvent q schemaOk u body newId s = (Inl BadRequest, s))
        \<and> (dateMatches d \<and> (\<exists>e \<in> set (eventDocs s). date e = d \<and> name e = nameInQuery q n) \<longrightarrow>
              createEvent q schemaOk u body newId s = (Inl BadRequest, s))
        \<and> (dateMatches d \<and> \<not> (\<exists>e \<in> set (eventDocs s). date e = d \<and> name e = nameInQuery q n)
            \<and> saveRejected schemaOk (eventToCreate u body newId s d n) s \<longrightarrow>
              createEvent q schemaOk u body newId s = (Inl BadRequest, s))
        \<and> (dateMatches d \<and> \<not> (\<exists>e \<in> set (eventDocs s). date e = d \<and> name e = nameInQuery q n)
            \<and> \<not> saveRejected schemaOk (eventToCreate u body newId s d n) s \<longrightarrow>
              fst (createEvent q schemaOk u body newId s) = Inr (eventToCreate u body newId s d n)
              \<and> eventDocs (snd (createEvent q schemaOk u body newId s))
                  = eventDocs s @ [eventToCreate u body newId s d n])"
      by (intro conjI 1 2 3 4)
  qed
  have fields: "date (eventToCreate u body newId s d n) = d"
    "name (eventToCreate u body newId s d n) = trim n"
    "active (eventToCreate u body newId s d n)"
    by (simp_all add: eventToCreate_def Let_def)
  have names: "nameInQuery True n = trim n" "nameInQuery False n = n"
    by (simp_all add: nameInQuery_def)
  have kept: "\<forall>err. fst (createEvent q schemaOk u body newId s) = Inl err \<longrightarrow>
         snd (createEvent q schemaOk u body newId s) = s"
  proof (intro allI impI)
    fix err
    assume "fst (createEvent q schemaOk u body newId s) = Inl err"
    then show "snd (createEvent q schemaOk u body newId s) = s"
      by (rule createEvent_rejection_keeps_store)
  qed
  show ?thesis
    by (intro conjI guest missing checked fields names kept leap_day_passes)
qed

text \<open>
  A guest, a body without a name and a date of month 13 are rejected. The same name on
  the same date is rejected, and accepted on 2019-02-29. A name sent with a leading space
  is rejected when the filter is trimmed, and otherwise stored trimmed beside the event
  of that name.
\<close>

theorem createEvent_duplicate_check_witness:
  "createEvent True (\<lambda>e. True) (requester Guest userB)
       (emptyBody\<lparr>b_date := Some ''2019-05-02'', b_name := Some ''Autumn Cup''\<rparr>) eventB
       (sampleStore [sampleEvent eventA userA ''Spring Cup'' [] [] True] [])
     = (Inl Unauthorized, sampleStore [sampleEvent eventA userA ''Spring Cup'' [] [] True] [])
   \<and> createEvent True (\<lambda>e. True) (requester Standard userB)
       (emptyBody\<lparr>b_date := Some ''2019-05-02''\<rparr>) eventB
       (sampleStore [sampleEvent eventA userA ''Spring Cup'' [] [] True] [])
     = (Inl BadRequest, sampleStore [sampleEvent eventA userA ''Spring Cup'' [] [] True] [])
   \<and> createEvent True (\<lambda>e. True) (requester Standard userB)
       (emptyBody\<lparr>b_date := Some ''2019-13-01'', b_name := Some ''Autumn Cup''\<rparr>) eventB
       (sampleStore [sampleEvent eventA userA ''Spring Cup'' [] [] True] [])
     = (Inl BadRequest, sampleStore [sampleEvent eventA userA ''Spring Cup'' [] [] True] [])
   \<and> createEvent False (\<lambda>e. True) (requester Standard userB)
       (emptyBody\<lparr>b_date := Some ''2019-05-01'', b_name := Some ''Spring Cup''\<rparr>) eventB
       (sampleStore [sampleEvent eventA userA ''Spring Cup'' [] [] True] [])
     = (Inl BadRequest, sampleStore [sampleEvent eventA userA ''Spring Cup'' [] [] True] [])
   \<and> fst (createEvent False (\<lambda>e. True) (requester Standard userB)
       (emptyBody\<lparr>b_date := Some ''2019-02-29'', b_name := Some ''Spring Cup''\<rparr>) eventB
       (sampleStore [sampleEvent eventA userA ''Spring Cup'' [] [] True] []))
     = Inr ((sampleEvent eventB userB ''Spring Cup'' [] [] True)\<lparr>date := ''2019-02-29''\<rparr>)
   \<and> eventDocs (snd (createEvent False (\<lambda>e. True) (requester Standard userB)
       (emptyBody\<lparr>b_date := Some ''2019-02-29'', b_name := Some ''Spring Cup''\<rparr>) eventB
       (sampleStore [sampleEvent eventA userA ''Spring Cup'' [] [] True] [])))
     = [sampleEvent eventA userA ''Spring Cup'' [] [] True,
        (sampleEvent eventB userB ''Spring Cup'' [] [] True)\<lparr>date := ''2019-02-29''\<rparr>]
   \<and> createEvent True (\<lambda>e. True) (requester Standard userB)
       (emptyBody\<lparr>b_date := Some ''2019-05-01'', b_name := Some '' Spring Cup''\<rparr>) eventB
       (sampleStore [sampleEvent eventA userA ''Spring Cup'' [] [] True] [])
     = (Inl BadRequest, sampleStore [sampleEvent eventA userA ''Spring Cup'' [] [] True] [])
   \<and> eventDocs (snd (createEvent False (\<lambda>e. True) (requester Standard userB)
       (emptyBody\<lparr>b_date := Some ''2019-05-01'', b_name := Some '' Spring Cup''\<rparr>) eventB
       (sampleStore [sampleEvent eventA userA ''Spring Cup'' [] [] True] [])))
     = [sampleEvent eventA userA ''Spring Cup'' [] [] True,
        sampleEvent eventB userB ''Spring Cup'' [] [] True]"
proof -
  let ?u = "requester Standard userB"
  let ?g = "requester Guest userB"
  let ?s = "sampleStore [sampleEvent eventA userA ''Spring Cup'' [] [] True] []"
  let ?b0 = "emptyBody\<lparr>b_date := Some ''2019-05-02'', b_name := Some ''Autumn Cup''\<rparr>"
  let ?b1 = "emptyBody\<lparr>b_date := Some ''2019-05-02''\<rparr>"
  let ?b2 = "emptyBody\<lparr>b_date := Some ''2019-13-01'', b_name := Some ''Autumn Cup''\<rparr>"
  let ?b3 = "emptyBody\<lparr>b_date := Some ''2019-05-01'', b_name := Some ''Spring Cup''\<rparr>"
  let ?b4 = "emptyBody\<lparr>b_date := Some ''2019-02-29'', b_name := Some ''Spring Cup''\<rparr>"
  let ?b5 = "emptyBody\<lparr>b_date := Some ''2019-05-01'', b_name := Some '' Spring Cup''\<rparr>"
  have g: "role ?g = Guest" and u: "role ?u \<noteq> Guest"
    by (simp_all add: requester_def)
  have b1: "b_name ?b1 = None"
    and b2: "b_date ?b2 = Some ''2019-13-01''" "b_name ?b2 = Some ''Autumn Cup''"
    and b3: "b_date ?b3 = Some ''2019-05-01''" "b_name ?b3 = Some ''Spring Cup''"
    and b4: "b_date ?b4 = Some ''2019-02-29''" "b_name ?b4 = Some ''Spring Cup''"
    and b5: "b_date ?b5 = Some ''2019-05-01''" "b_name ?b5 = Some '' Spring Cup''"
    by (simp_all add: emptyBody_def)
  have ne: "''2019-13-01'' \<noteq> []" "''2019-05-01'' \<noteq> []" "''2019-02-29'' \<noteq> []"
    "''Autumn Cup'' \<noteq> []" "''Spring Cup'' \<noteq> []" "'' Spring Cup'' \<noteq> []"
    by simp_all
  have m: "\<not> dateMatches ''2019-13-01''" "dateMatches ''2019-05-01''"
    by (simp_all add: monthDay_def day29_def day30_def day31_def isDigit_def)
  have docs: "eventDocs ?s = [sampleEvent eventA userA ''Spring Cup'' [] [] True]"
    by (simp add: sampleStore_def)
  have dup: "\<exists>e \<in> set (eventDocs ?s). date e = ''2019-05-01'' \<and> name e = nameInQuery False ''Spring Cup''"
    "\<exists>e \<in> set (eventDocs ?s). date e = ''2019-05-01'' \<and> name e = nameInQuery True '' Spring Cup''"
    by (simp_all add: store_sample_defs nameInQuery_def trim_samples)
  have nodup: "\<not> (\<exists>e \<in> set (eventDocs ?s). date e = ''2019-02-29'' \<and> name e = nameInQuery False ''Spring Cup'')"
    "\<not> (\<exists>e \<in> set (eventDocs ?s). date e = ''2019-05-01'' \<and> name e = nameInQuery False '' Spring Cup'')"
    by (simp_all add: store_sample_defs nameInQuery_def)
  have new4: "eventToCreate ?u ?b4 eventB ?s ''2019-02-29'' ''Spring Cup''
      = (sampleEvent eventB userB ''Spring Cup'' [] [] True)\<lparr>date := ''2019-02-29''\<rparr>"
    by (simp add: eventToCreate_def store_sample_defs whitelisted_def trim_samples)
  have new5: "eventToCreate ?u ?b5 eventB ?s ''2019-05-01'' '' Spring Cup''
      = sampleEvent eventB userB ''Spring Cup'' [] [] True"
    by (simp add: eventToCreate_def store_sample_defs whitelisted_def trim_samples)
  have save: "\<not> saveRejected (\<lambda>e. True) (eventToCreate ?u ?b4 eventB ?s ''2019-02-29'' ''Spring Cup'') ?s"
    "\<not> saveRejected (\<lambda>e. True) (eventToCreate ?u ?b5 eventB ?s ''2019-05-01'' '' Spring Cup'') ?s"
    unfolding new4 new5 by (simp_all add: saveRejected_def store_sample_defs)
  have r0: "createEvent True (\<lambda>e. True) ?g ?b0 eventB ?s = (Inl Unauthorized, ?s)"
    using g createEvent_duplicate_check [where u = ?g and q = True and schemaOk = "\<lambda>e. True"
        and body = ?b0 and newId = eventB and s = ?s]
    by blast
  have r1: "createEvent True (\<lambda>e. True) ?u ?b1 eventB ?s = (Inl BadRequest, ?s)"
    using u b1 createEvent_duplicate_check [where u = ?u and q = True and schemaOk = "\<lambda>e. True"
        and body = ?b1 and newId = eventB and s = ?s]
    by blast
  have r2: "createEvent True (\<lambda>e. True) ?u ?b2 eventB ?s = (Inl BadRequest, ?s)"
    using u b2 ne(1,4) m(1)
      createEvent_duplicate_check [where u = ?u and q = True and schemaOk = "\<lambda>e. True"
        and body = ?b2 and newId = eventB and s = ?s and d = "''2019-13-01''" and n = "''Autumn Cup''"]
    by blast
  have r3: "createEvent False (\<lambda>e. True) ?u ?b3 eventB ?s = (Inl BadRequest, ?s)"
    using u b3 ne(2,5) m(2) dup(1)
      createEvent_duplicate_check [where u = ?u and q = False and schemaOk = "\<lambda>e. True"
        and body = ?b3 and newId = eventB and s = ?s and d = "''2019-05-01''" and n = "''Spring Cup''"]
    by blast
  have r4: "fst (createEvent False (\<lambda>e. True) ?u ?b4 eventB ?s)
        = Inr (eventToCreate ?u ?b4 eventB ?s ''2019-02-29'' ''Spring Cup'')
      \<and> eventDocs (snd (createEvent False (\<lambda>e. True) ?u ?b4 eventB ?s))
        = eventDocs ?s @ [eventToCreate ?u ?b4 eventB ?s ''2019-02-29'' ''Spring Cup'']"
    using u b4 ne(3,5) nodup(1) save(1)
      createEvent_duplicate_check [where u = ?u and q = False and schemaOk = "\<lambda>e. True"
        and body = ?b4 and newId = eventB and s = ?s and d = "''2019-02-29''" and n = "''Spring Cup''"]
    by blast
  have r5: "createEvent True (\<lambda>e. True) ?u ?b5 eventB ?s = (Inl BadRequest, ?s)"
    using u b5 ne(2,6) m(2) dup(2)
      createEvent_duplicate_check [where u = ?u and q = True and schemaOk = "\<lambda>e. True"
        and body = ?b5 and newId = eventB and s = ?s and d = "''2019-05-01''" and n = "'' Spring Cup''"]
    by blast
  have r6: "eventDocs (snd (createEvent False (\<lambda>e. True) ?u ?b5 eventB ?s))
        = eventDocs ?s @ [eventToCreate ?u ?b5 eventB ?s ''2019-05-01'' '' Spring Cup'']"
    using u b5 ne(2,6) m(2) nodup(2) save(2)
      createEvent_duplicate_check [where u = ?u and q = False and schemaOk = "\<lambda>e. True"
        and body = ?b5 and newId = eventB and s = ?s and d = "''2019-05-01''" and n = "'' Spring Cup''"]
    by blast
  show ?thesis
    using r0 r1 r2 r3 r4 r5 r6 unfolding new4 new5 docs by simp
qed

text \<open>
  Claim C9 as stated fails when the only event with the date and name is a soft-deleted
  one: no active event has the pair, and the request is rejected, whether or not the
  filter is trimmed.
\<close>

theorem createEvent_inactive_duplicate_counterexample:
  "\<not> (\<exists>e \<in> set (eventDocs (sampleStore
          [sampleEvent eventA userA ''Spring Cup deleted:03112019@0905'' [] [] False] [])).
        active e \<and> date e = ''2019-05-01'' \<and> name e = ''Spring Cup deleted:03112019@0905'')
   \<and> createEvent True (\<lambda>e. True) (requester Standard userB)
       (emptyBody\<lparr>b_date := Some ''2019-05-01'',
                  b_name := Some ''Spring Cup deleted:03112019@0905''\<rparr>) eventB
       (sampleStore [sampleEvent eventA userA ''Spring Cup deleted:03112019@0905'' [] [] False] [])
     = (Inl BadRequest,
        sampleStore [sampleEvent eventA userA ''Spring Cup deleted:03112019@0905'' [] [] False] [])
   \<and> createEvent False (\<lambda>e. True) (requester Standard userB)
       (emptyBody\<lparr>b_date := Some ''2019-05-01'',
                  b_name := Some ''Spring Cup deleted:03112019@0905''\<rparr>) eventB
       (sampleStore [sampleEvent eventA userA ''Spring Cup deleted:03112019@0905'' [] [] False] [])
     = (Inl BadRequest,
        sampleStore [sampleEvent eventA userA ''Spring Cup deleted:03112019@0905'' [] [] False] [])"
  by (simp add: createEvent_def truthy_def monthDay_def day29_def day31_def isDigit_def
        nameInQuery_def trim_samples)
     (simp add: store_sample_defs)

subsection \<open>The reference delta\<close>

text \<open>
  When the request supplies the list, both sides of every comparison are strings and the
  delta is the set difference, however \<open>includes\<close> compares.
\<close>

lemma includesId_strings:
  "includesId sem (map IdString xs) (IdString x) = (x \<in> set xs)"
  by (cases sem) (auto simp: list_ex_iff)

lemma added_supplied:
  "addedIds k current (Some new) = map IdString (filter (\<lambda>i. i \<notin> set current) new)"
  by (simp add: addedIds_def newRefs_def currentStrings_def filter_map comp_def includesId_strings del: includesId.simps)

lemma removed_supplied:
  "removedIds k current (Some new) = map IdString (filter (\<lambda>i. i \<notin> set new) current)"
  by (simp add: removedIds_def newRefs_def newRefsSem_def currentStrings_def filter_map comp_def
      includesId_strings del: includesId.simps)

lemma delta_supplied_sets:
  "idToString ` set (addedIds k current (Some new)) = set new - set current"
  "idToString ` set (removedIds k current (Some new)) = set current - set new"
  by (auto simp: added_supplied removed_supplied image_iff)

text \<open>
  When the request supplies no list, the new list is the stored array of ObjectIDs and the
  current list holds their strings: the delta is empty when \<open>includes\<close> compares through
  the hex form, and is the whole current list when it compares by SameValueZero.
\<close>

lemma includesId_cast_objects:
  "includesId CastToString (map ObjectID xs) (IdString x) = (x \<in> set xs)"
  "includesId CastToString (map IdString xs) (ObjectID x) = (x \<in> set xs)"
  by (auto simp: list_ex_iff)

lemma includesId_strict_objects:
  "includesId SameValueZero (map ObjectID xs) (IdString x) = False"
  "includesId SameValueZero (map IdString xs) (ObjectID x) = False"
  by (auto simp: list_ex_iff)

lemma delta_absent_casting:
  "mappedIncludes k = CastToString \<Longrightarrow> addedIds k current None = []"
  "storedIncludes k = CastToString \<Longrightarrow> removedIds k current None = []"
  by (simp_all add: addedIds_def removedIds_def newRefs_def newRefsSem_def currentStrings_def
      filter_map comp_def includesId_cast_objects del: includesId.simps)

lemma delta_absent_strict:
  "mappedIncludes k = SameValueZero \<Longrightarrow> addedIds k current None = map ObjectID current"
  "storedIncludes k = SameValueZero \<Longrightarrow> removedIds k current None = map IdString current"
  by (simp_all add: addedIds_def removedIds_def newRefs_def newRefsSem_def currentStrings_def
      filter_map comp_def includesId_strict_objects del: includesId.simps)


text \<open>
  With \<open>Array.prototype.includes\<close> on the array returned by \<open>.map\<close> and a document
  array that compares through the hex form, an update without a reference list of a
  soft-deleted event, which has kept its \<open>linkedTo\<close>, adds the event to the linked event
  again.
\<close>

lemma update_without_list_on_deleted_event:
  "snd (updateEvent \<lparr>mappedIncludes = SameValueZero, storedIncludes = CastToString\<rparr> (\<lambda>b. True)
        (requester Standard userA) eventA (emptyBody\<lparr>b_name := Some ''Autumn Cup''\<rparr>)
        (sampleStore [sampleEvent eventA userA ''Spring Cup deleted:03112019@0905'' [linkA] [] False]
                     [sampleLink linkA ''Cup'' []]))
     = sampleStore [sampleEvent eventA userA ''Autumn Cup'' [linkA] [] False]
                   [sampleLink linkA ''Cup'' [eventA]]"
  by (simp add: updateEvent_def updateRequestError_def allowedToUpdate_def
      addedIds_def removedIds_def newRefs_def newRefsSem_def currentStrings_def
      numberOfEventFields_def countIf_def setEventFields_def whitelisted_def replaceEvent_def
      mirrorIncludes_def updateMany_def truthy_def addToSet_def pull_def
      validateLinkedEventIds_def validateClubIds_def validateIds_def isValidObjectID_def
      isHexDigit_def store_sample_defs Let_def)

text \<open>
  Claim C3 at an update that supplies no reference list, with \<open>Array.prototype.includes\<close>
  on the array returned by \<open>.map\<close>: the event linked to one linked event is renamed, and
  the linked event is reported as added. When the document's own array compares the same
  way it is reported as removed too, and the mirror step pulls the event from the linked
  event; renaming the linked event pulls it from the event in the same way.
\<close>

theorem update_without_reference_list_delta:
  "addedIds \<lparr>mappedIncludes = SameValueZero, storedIncludes = CastToString\<rparr> [linkA] None
     = [ObjectID linkA]
   \<and> removedIds \<lparr>mappedIncludes = SameValueZero, storedIncludes = SameValueZero\<rparr> [linkA] None
     = [IdString linkA]
   \<and> snd (updateEvent \<lparr>mappedIncludes = SameValueZero, storedIncludes = SameValueZero\<rparr> (\<lambda>b. True)
        (requester Standard userA) eventA (emptyBody\<lparr>b_name := Some ''Autumn Cup''\<rparr>)
        (sampleStore [sampleEvent eventA userA ''Spring Cup'' [linkA] [] True]
                     [sampleLink linkA ''Cup'' [eventA]]))
     = sampleStore [sampleEvent eventA userA ''Autumn Cup'' [linkA] [] True] [sampleLink linkA ''Cup'' []]
   \<and> snd (updateEventLink \<lparr>mappedIncludes = SameValueZero, storedIncludes = SameValueZero\<rparr>
        (requester Standard userA) linkA \<lparr>b_displayName = Some ''Cup 2019'', b_includes = None\<rparr>
        (sampleStore [sampleEvent eventA userA ''Spring Cup'' [linkA] [] True]
                     [sampleLink linkA ''Cup'' [eventA]]))
     = sampleStore [sampleEvent eventA userA ''Spring Cup'' [] [] True]
                   [sampleLink linkA ''Cup 2019'' [eventA]]"
proof -
  let ?k = "\<lparr>mappedIncludes = SameValueZero, storedIncludes = SameValueZero\<rparr>"
  let ?s = "sampleStore [sampleEvent eventA userA ''Spring Cup'' [linkA] [] True]
                     [sampleLink linkA ''Cup'' [eventA]]"
  have a: "addedIds \<lparr>mappedIncludes = SameValueZero, storedIncludes = CastToString\<rparr> [linkA] None
     = [ObjectID linkA]"
    by (simp add: delta_absent_strict)
  have r: "removedIds ?k [linkA] None = [IdString linkA]"
    by (simp add: delta_absent_strict)
  have a2: "addedIds ?k [linkA] None = [ObjectID linkA]" "addedIds ?k [eventA] None = [ObjectID eventA]"
    "removedIds ?k [eventA] None = [IdString eventA]"
    by (simp_all add: delta_absent_strict)
  have pre: "updateRequestError (requester Standard userA) eventA (emptyBody\<lparr>b_name := Some ''Autumn Cup''\<rparr>) ?s = None"
    using isValid_samples(1)
    by (simp add: updateRequestError_def truthy_def) (simp add: store_sample_defs)
  have found: "find (\<lambda>d. e_id d = eventA) (eventDocs ?s)
      = Some (sampleEvent eventA userA ''Spring Cup'' [linkA] [] True)"
    by (simp add: store_sample_defs)
  have allowed: "allowedToUpdate ?k (requester Standard userA)
      (sampleEvent eventA userA ''Spring Cup'' [linkA] [] True)"
    by (simp add: allowedToUpdate_def store_sample_defs)
  have lt: "linkedTo (sampleEvent eventA userA ''Spring Cup'' [linkA] [] True) = [linkA]"
    by (simp add: sampleEvent_def)
  have u: "snd (updateEvent ?k (\<lambda>b. True) (requester Standard userA) eventA
        (emptyBody\<lparr>b_name := Some ''Autumn Cup''\<rparr>) ?s)
     = sampleStore [sampleEvent eventA userA ''Autumn Cup'' [linkA] [] True] [sampleLink linkA ''Cup'' []]"
    using pre found allowed
    by (simp add: updateEvent_def Let_def numberOfEventFields_def countIf_def lt a2 r)
       (simp add: store_sample_defs setEventFields_def whitelisted_def replaceEvent_def
          mirrorIncludes_def updateMany_def truthy_def addToSet_def pull_def delta_absent_strict)
  have foundl: "find (\<lambda>l. l_id l = linkA) (linkedEventDocs ?s) = Some (sampleLink linkA ''Cup'' [eventA])"
    by (simp add: store_sample_defs)
  have inc: "l_includes (sampleLink linkA ''Cup'' [eventA]) = [eventA]"
    by (simp add: sampleLink_def)
  have ul: "snd (updateEventLink ?k (requester Standard userA) linkA
        \<lparr>b_displayName = Some ''Cup 2019'', b_includes = None\<rparr> ?s)
     = sampleStore [sampleEvent eventA userA ''Spring Cup'' [] [] True]
                   [sampleLink linkA ''Cup 2019'' [eventA]]"
    using foundl isValid_samples(3)
    by (simp add: updateEventLink_def Let_def countIf_def inc a2 truthy_def requester_def)
       (simp add: store_sample_defs replaceLinkedEvent_def mirrorLinkedTo_def updateMany_def
          addToSet_def pull_def delta_absent_strict)
  show ?thesis using a r u ul by simp
qed

subsection \<open>The runner entry after updateEventRunner\<close>

text \<open>
  Claim C7 at a request of a runner that supplies only \<open>courseTitle\<close>: the stored entry
  is replaced by the supplied fields alone. Its user reference, its maps and its visibility
  are gone; the other entry is unchanged.
\<close>

theorem updateEventRunner_replaces_entry:
  "updateEventRunner (\<lambda>fs. Some (map_of fs)) (requester Standard userA) eventA userA
       [(''courseTitle'', ''H21B'')] (courseStore [courseRunner userA, courseRunner userB])
     = (Inr (courseEvent [\<lparr>r_user = None, r_fields = [''courseTitle'' \<mapsto> ''H21B'']\<rparr>, courseRunner userB]),
        courseStore [\<lparr>r_user = None, r_fields = [''courseTitle'' \<mapsto> ''H21B'']\<rparr>, courseRunner userB])
   \<and> r_user (courseRunner userA) = Some userA
   \<and> r_fields (courseRunner userA) ''maps'' = Some ''[map]''
   \<and> r_fields (courseRunner userA) ''visibility'' = Some ''club''
   \<and> [''courseTitle'' \<mapsto> ''H21B''] ''maps'' = (None :: string option)"
proof -
  have found: "find (\<lambda>e. e_id e = eventA) (eventDocs (courseStore [courseRunner userA, courseRunner userB]))
      = Some (courseEvent [courseRunner userA, courseRunner userB])"
    by (simp add: courseStore_def courseEvent_def)
  have ids: "those (map r_user (runners (courseEvent [courseRunner userA, courseRunner userB])))
      = Some [userA, userB]"
    by (simp add: courseEvent_def courseRunner_def)
  have fs: "whitelisted runnerValidFields [(''courseTitle'', ''H21B'')] = [(''courseTitle'', ''H21B'')]"
    by (simp add: whitelisted_def runnerValidFields_def)
  have upd: "updateEventRunner (\<lambda>fs. Some (map_of fs)) (requester Standard userA) eventA userA
       [(''courseTitle'', ''H21B'')] (courseStore [courseRunner userA, courseRunner userB])
     = (Inr (courseEvent [\<lparr>r_user = None, r_fields = [''courseTitle'' \<mapsto> ''H21B'']\<rparr>, courseRunner userB]),
        courseStore [\<lparr>r_user = None, r_fields = [''courseTitle'' \<mapsto> ''H21B'']\<rparr>, courseRunner userB])"
    using found ids fs isValid_samples(1) isValid_samples(5)
    by (simp add: updateEventRunner_def Let_def requester_def)
       (simp add: courseStore_def courseEvent_def courseRunner_def replaceEvent_def userA_def userB_def)
  show ?thesis
    using upd by (simp add: courseRunner_def)
qed

subsection \<open>The reference graph under the operations\<close>

lemma set_addToSet: "set (addToSet x xs) = insert x (set xs)"
  by (auto simp: addToSet_def)

lemma set_pull: "set (pull x xs) = set xs - {x}"
  by (auto simp: pull_def)

lemma set_validateIds: "set (validateIds existing candidates) \<subseteq> set existing"
  by (induction candidates) (auto simp: validateIds_def)

lemma consistentI:
  assumes "distinct (map e_id (eventDocs s))" and "distinct (map l_id (linkedEventDocs s))"
    and "\<And>e l. e \<in> set (eventDocs s) \<Longrightarrow> active e \<Longrightarrow> l \<in> set (linkedEventDocs s) \<Longrightarrow>
           (e_id e \<in> set (l_includes l)) = (l_id l \<in> set (linkedTo e))"
    and "\<And>e x. e \<in> set (eventDocs s) \<Longrightarrow> active e \<Longrightarrow> x \<in> set (linkedTo e) \<Longrightarrow>
           x \<in> l_id ` set (linkedEventDocs s)"
    and "\<And>l x. l \<in> set (linkedEventDocs s) \<Longrightarrow> x \<in> set (l_includes l) \<Longrightarrow>
           x \<in> e_id ` set (eventDocs s)"
  shows "consistent s"
  using assms unfolding consistent_def by blast

lemma consistentD:
  assumes "consistent s"
  shows "distinct (map e_id (eventDocs s))" and "distinct (map l_id (linkedEventDocs s))"
    and "\<And>e l. e \<in> set (eventDocs s) \<Longrightarrow> active e \<Longrightarrow> l \<in> set (linkedEventDocs s) \<Longrightarrow>
           (e_id e \<in> set (l_includes l)) = (l_id l \<in> set (linkedTo e))"
    and "\<And>e x. e \<in> set (eventDocs s) \<Longrightarrow> active e \<Longrightarrow> x \<in> set (linkedTo e) \<Longrightarrow>
           x \<in> l_id ` set (linkedEventDocs s)"
    and "\<And>l x. l \<in> set (linkedEventDocs s) \<Longrightarrow> x \<in> set (l_includes l) \<Longrightarrow>
           x \<in> e_id ` set (eventDocs s)"
  using assms unfolding consistent_def by blast+

lemma same_id_same_doc:
  "distinct (map f docs) \<Longrightarrow> a \<in> set docs \<Longrightarrow> b \<in> set docs \<Longrightarrow> f a = f b \<Longrightarrow> a = b"
  by (meson distinct_map inj_onD)

lemma map_id_updateMany:
  "(\<And>d. f (change d) = f d) \<Longrightarrow> map f (updateMany matching change docs) = map f docs"
  by (simp add: updateMany_def)

lemma in_updateMany:
  "d' \<in> set (updateMany matching change docs) \<Longrightarrow>
     \<exists>d \<in> set docs. d' = (if matching d then change d else d)"
  by (auto simp: updateMany_def)

lemma in_replaceEvent:
  "d' \<in> set (replaceEvent e' docs) \<Longrightarrow> \<exists>d \<in> set docs. d' = (if e_id d = e_id e' then e' else d)"
  by (auto simp: replaceEvent_def)

lemma in_replaceLinkedEvent:
  "d' \<in> set (replaceLinkedEvent l' docs) \<Longrightarrow> \<exists>d \<in> set docs. d' = (if l_id d = l_id l' then l' else d)"
  by (auto simp: replaceLinkedEvent_def)

lemma map_l_id_replaceLinkedEvent: "map l_id (replaceLinkedEvent l' docs) = map l_id docs"
  by (induction docs) (simp_all add: replaceLinkedEvent_def)

text \<open>deleteEvent keeps the invariant: the event becomes inactive and loses every mirror reference.\<close>

lemma deleteEvent_cases:
  "snd (deleteEvent now u eventid s) = s
   \<or> (\<exists>e e'. find (\<lambda>d. e_id d = eventid) (eventDocs s) = Some e \<and> e_id e' = eventid \<and> \<not> active e'
        \<and> snd (deleteEvent now u eventid s) =
            s\<lparr>eventDocs := replaceEvent e' (eventDocs s),
              linkedEventDocs := updateMany (\<lambda>l. True)
                (\<lambda>l. l\<lparr>l_includes := pull eventid (l_includes l)\<rparr>) (linkedEventDocs s)\<rparr>)"
proof (cases "find (\<lambda>d. e_id d = eventid) (eventDocs s)")
  case None
  then show ?thesis by (simp add: deleteEvent_def)
next
  case (Some e)
  let ?e' = "e\<lparr>active := False, name := name e @ '' '' @ deletedAt now, orisId := taggedOrisId now e\<rparr>"
  have id: "e_id ?e' = eventid" "\<not> active ?e'"
    using find_SomeD [OF Some] by simp_all
  have "snd (deleteEvent now u eventid s) = s
    \<or> snd (deleteEvent now u eventid s) =
            s\<lparr>eventDocs := replaceEvent ?e' (eventDocs s),
              linkedEventDocs := updateMany (\<lambda>l. True)
                (\<lambda>l. l\<lparr>l_includes := pull eventid (l_includes l)\<rparr>) (linkedEventDocs s)\<rparr>"
    using Some by (simp add: deleteEvent_def Let_def)
  then show ?thesis using Some id by blast
qed

lemma deleteEvent_consistent:
  assumes "consistent s"
  shows "consistent (snd (deleteEvent now u eventid s))"
proof -
  note c = consistentD [OF assms]
  consider "snd (deleteEvent now u eventid s) = s"
    | e e' where "find (\<lambda>d. e_id d = eventid) (eventDocs s) = Some e" "e_id e' = eventid" "\<not> active e'"
        "snd (deleteEvent now u eventid s) =
            s\<lparr>eventDocs := replaceEvent e' (eventDocs s),
              linkedEventDocs := updateMany (\<lambda>l. True)
                (\<lambda>l. l\<lparr>l_includes := pull eventid (l_includes l)\<rparr>) (linkedEventDocs s)\<rparr>"
    using deleteEvent_cases [of now u eventid s] by blast
  then show ?thesis
  proof cases
    case 1
    then show ?thesis using assms by simp
  next
    case 2
    let ?t = "snd (deleteEvent now u eventid s)"
    have E: "eventDocs ?t = replaceEvent e' (eventDocs s)"
      and L: "linkedEventDocs ?t = updateMany (\<lambda>l. True)
                (\<lambda>l. l\<lparr>l_includes := pull eventid (l_includes l)\<rparr>) (linkedEventDocs s)"
      using 2(4) by simp_all
    have ids: "map e_id (eventDocs ?t) = map e_id (eventDocs s)"
      "map l_id (linkedEventDocs ?t) = map l_id (linkedEventDocs s)"
      by (simp_all add: E L map_e_id_replaceEvent map_id_updateMany)
    have idsets: "e_id ` set (eventDocs ?t) = e_id ` set (eventDocs s)"
      "l_id ` set (linkedEventDocs ?t) = l_id ` set (linkedEventDocs s)"
      using ids by (metis set_map)+
    have old: "d \<in> set (eventDocs s) \<and> e_id d \<noteq> eventid"
      if "d \<in> set (eventDocs ?t)" "active d" for d
      using that in_replaceEvent [of d e' "eventDocs s"] 2(2,3) unfolding E
      by (auto split: if_splits)
    have link: "\<exists>l0 \<in> set (linkedEventDocs s). l_id l = l_id l0
        \<and> set (l_includes l) = set (l_includes l0) - {eventid}"
      if "l \<in> set (linkedEventDocs ?t)" for l
      using that unfolding L updateMany_def
      by (auto simp: set_pull)
    show ?thesis
    proof (rule consistentI)
      show "distinct (map e_id (eventDocs ?t))" "distinct (map l_id (linkedEventDocs ?t))"
        using c(1,2) ids by simp_all
    next
      fix d l assume d: "d \<in> set (eventDocs ?t)" "active d" and l: "l \<in> set (linkedEventDocs ?t)"
      obtain l0 where l0: "l0 \<in> set (linkedEventDocs s)" "l_id l = l_id l0"
        "set (l_includes l) = set (l_includes l0) - {eventid}"
        using link [OF l] by blast
      show "(e_id d \<in> set (l_includes l)) = (l_id l \<in> set (linkedTo d))"
        using old [OF d] c(3) [of d l0] d(2) l0 by auto
    next
      fix d x assume "d \<in> set (eventDocs ?t)" "active d" "x \<in> set (linkedTo d)"
      then show "x \<in> l_id ` set (linkedEventDocs ?t)"
        using old [of d] c(4) [of d x] idsets by auto
    next
      fix l x assume l: "l \<in> set (linkedEventDocs ?t)" and "x \<in> set (l_includes l)"
      then show "x \<in> e_id ` set (eventDocs ?t)"
        using link [OF l] c(5) idsets by auto
    qed
  qed
qed


text \<open>deleteEventLink keeps the invariant: every active event that references the linked event is in its \<open>includes\<close>.\<close>

lemma deleteEventLink_cases:
  "snd (deleteEventLink u eventlinkid s) = s
   \<or> (\<exists>l0. l0 \<in> set (linkedEventDocs s) \<and> l_id l0 = eventlinkid
        \<and> snd (deleteEventLink u eventlinkid s) =
            s\<lparr>linkedEventDocs := filter (\<lambda>l. l_id l \<noteq> eventlinkid) (linkedEventDocs s),
              eventDocs := updateMany (\<lambda>e. e_id e \<in> set (l_includes l0))
                (\<lambda>e. e\<lparr>linkedTo := pull eventlinkid (linkedTo e)\<rparr>) (eventDocs s)\<rparr>)"
proof (cases "find (\<lambda>l. l_id l = eventlinkid) (linkedEventDocs s)")
  case None
  then show ?thesis by (simp add: deleteEventLink_def)
next
  case (Some l0)
  have "l0 \<in> set (linkedEventDocs s)" "l_id l0 = eventlinkid"
    using find_SomeD [OF Some] by simp_all
  then show ?thesis
    using Some by (auto simp: deleteEventLink_def)
qed

lemma deleteEventLink_consistent:
  assumes "consistent s"
  shows "consistent (snd (deleteEventLink u eventlinkid s))"
proof -
  note c = consistentD [OF assms]
  consider "snd (deleteEventLink u eventlinkid s) = s"
    | l0 where "l0 \<in> set (linkedEventDocs s)" "l_id l0 = eventlinkid"
        "snd (deleteEventLink u eventlinkid s) =
            s\<lparr>linkedEventDocs := filter (\<lambda>l. l_id l \<noteq> eventlinkid) (linkedEventDocs s),
              eventDocs := updateMany (\<lambda>e. e_id e \<in> set (l_includes l0))
                (\<lambda>e. e\<lparr>linkedTo := pull eventlinkid (linkedTo e)\<rparr>) (eventDocs s)\<rparr>"
    using deleteEventLink_cases [of u eventlinkid s] by blast
  then show ?thesis
  proof cases
    case 1
    then show ?thesis using assms by simp
  next
    case 2
    let ?t = "snd (deleteEventLink u eventlinkid s)"
    have L: "linkedEventDocs ?t = filter (\<lambda>l. l_id l \<noteq> eventlinkid) (linkedEventDocs s)"
      and E: "eventDocs ?t = updateMany (\<lambda>e. e_id e \<in> set (l_includes l0))
                (\<lambda>e. e\<lparr>linkedTo := pull eventlinkid (linkedTo e)\<rparr>) (eventDocs s)"
      using 2(3) by simp_all
    have ids: "map e_id (eventDocs ?t) = map e_id (eventDocs s)"
      by (simp add: E map_id_updateMany)
    have idset: "e_id ` set (eventDocs ?t) = e_id ` set (eventDocs s)"
      using ids by (metis set_map)
    have ev: "\<exists>d0 \<in> set (eventDocs s). e_id d = e_id d0 \<and> active d = active d0
        \<and> set (linkedTo d) = (if e_id d0 \<in> set (l_includes l0)
                               then set (linkedTo d0) - {eventlinkid} else set (linkedTo d0))"
      if "d \<in> set (eventDocs ?t)" for d
      using that unfolding E updateMany_def by (auto simp: set_pull)
    have lk: "l \<in> set (linkedEventDocs s) \<and> l_id l \<noteq> eventlinkid"
      if "l \<in> set (linkedEventDocs ?t)" for l
      using that unfolding L by simp
    show ?thesis
    proof (rule consistentI)
      show "distinct (map e_id (eventDocs ?t))"
        using c(1) ids by simp
      show "distinct (map l_id (linkedEventDocs ?t))"
        unfolding L using c(2) by (simp add: distinct_map_filter)
    next
      fix d l assume d: "d \<in> set (eventDocs ?t)" "active d" and l: "l \<in> set (linkedEventDocs ?t)"
      obtain d0 where d0: "d0 \<in> set (eventDocs s)" "e_id d = e_id d0" "active d = active d0"
        "set (linkedTo d) = (if e_id d0 \<in> set (l_includes l0)
                               then set (linkedTo d0) - {eventlinkid} else set (linkedTo d0))"
        using ev [OF d(1)] by blast
      show "(e_id d \<in> set (l_includes l)) = (l_id l \<in> set (linkedTo d))"
        using c(3) [of d0 l] d0 d(2) lk [OF l] by auto
    next
      fix d x assume d: "d \<in> set (eventDocs ?t)" "active d" and x: "x \<in> set (linkedTo d)"
      obtain d0 where d0: "d0 \<in> set (eventDocs s)" "e_id d = e_id d0" "active d = active d0"
        "set (linkedTo d) = (if e_id d0 \<in> set (l_includes l0)
                               then set (linkedTo d0) - {eventlinkid} else set (linkedTo d0))"
        using ev [OF d(1)] by blast
      have x0: "x \<in> set (linkedTo d0)"
        using x d0(4) by (auto split: if_splits)
      have "x \<noteq> eventlinkid"
        using x d0(4) c(3) [of d0 l0] d0(1,3) d(2) 2(1,2) x0 by (auto split: if_splits)
      moreover obtain l where "l \<in> set (linkedEventDocs s)" "x = l_id l"
        using c(4) [of d0 x] d0(1,3) d(2) x0 by auto
      ultimately show "x \<in> l_id ` set (linkedEventDocs ?t)"
        unfolding L by auto
    next
      fix l x assume "l \<in> set (linkedEventDocs ?t)" "x \<in> set (l_includes l)"
      then show "x \<in> e_id ` set (eventDocs ?t)"
        using lk [of l] c(5) [of l x] idset by auto
    qed
  qed
qed

text \<open>createEvent keeps the invariant: the new id occurs in no \<open>includes\<close> list before.\<close>

lemma eventToCreate_facts:
  "e_id (eventToCreate u body newId s d n) = newId"
  "active (eventToCreate u body newId s d n)"
  "set (linkedTo (eventToCreate u body newId s d n)) \<subseteq> l_id ` set (linkedEventDocs s)"
  using set_validateIds [of "map l_id (linkedEventDocs s)"]
  by (auto simp: eventToCreate_def Let_def validateLinkedEventIds_def split: option.splits)

lemma createEvent_cases:
  "snd (createEvent q schemaOk u body newId s) = s
   \<or> (\<exists>ne. e_id ne = newId \<and> active ne \<and> newId \<notin> e_id ` set (eventDocs s)
        \<and> set (linkedTo ne) \<subseteq> l_id ` set (linkedEventDocs s)
        \<and> snd (createEvent q schemaOk u body newId s) =
            s\<lparr>eventDocs := eventDocs s @ [ne],
              linkedEventDocs := updateMany (\<lambda>l. l_id l \<in> set (linkedTo ne))
                (\<lambda>l. l\<lparr>l_includes := addToSet newId (l_includes l)\<rparr>) (linkedEventDocs s)\<rparr>)"
proof (cases "fst (createEvent q schemaOk u body newId s)")
  case (Inl err)
  then show ?thesis using createEvent_rejection_keeps_store by blast
next
  case (Inr saved)
  then obtain d n where dn: "b_date body = Some d" "b_name body = Some n"
    and save: "\<not> saveRejected schemaOk (eventToCreate u body newId s d n) s"
    and res: "snd (createEvent q schemaOk u body newId s) =
       s\<lparr>eventDocs := eventDocs s @ [eventToCreate u body newId s d n],
         linkedEventDocs := updateMany (\<lambda>l. l_id l \<in> set (linkedTo (eventToCreate u body newId s d n)))
           (\<lambda>l. l\<lparr>l_includes := addToSet newId (l_includes l)\<rparr>) (linkedEventDocs s)\<rparr>"
    by (auto simp: createEvent_def Let_def split: if_splits option.splits)
  have "newId \<notin> e_id ` set (eventDocs s)"
    using save by (simp add: saveRejected_def eventToCreate_facts)
  then show ?thesis
    using res eventToCreate_facts [of u body newId s d n] by blast
qed

lemma createEvent_consistent:
  assumes "consistent s"
  shows "consistent (snd (createEvent q schemaOk u body newId s))"
proof -
  note c = consistentD [OF assms]
  consider "snd (createEvent q schemaOk u body newId s) = s"
    | ne where "e_id ne = newId" "active ne" "newId \<notin> e_id ` set (eventDocs s)"
        "set (linkedTo ne) \<subseteq> l_id ` set (linkedEventDocs s)"
        "snd (createEvent q schemaOk u body newId s) =
            s\<lparr>eventDocs := eventDocs s @ [ne],
              linkedEventDocs := updateMany (\<lambda>l. l_id l \<in> set (linkedTo ne))
                (\<lambda>l. l\<lparr>l_includes := addToSet newId (l_includes l)\<rparr>) (linkedEventDocs s)\<rparr>"
    using createEvent_cases [of q schemaOk u body newId s] by blast
  then show ?thesis
  proof cases
    case 1
    then show ?thesis using assms by simp
  next
    case 2
    let ?t = "snd (createEvent q schemaOk u body newId s)"
    have E: "eventDocs ?t = eventDocs s @ [ne]"
      and L: "linkedEventDocs ?t = updateMany (\<lambda>l. l_id l \<in> set (linkedTo ne))
                (\<lambda>l. l\<lparr>l_includes := addToSet newId (l_includes l)\<rparr>) (linkedEventDocs s)"
      using 2(5) by simp_all
    have ids: "map l_id (linkedEventDocs ?t) = map l_id (linkedEventDocs s)"
      by (simp add: L map_id_updateMany)
    have idset: "l_id ` set (linkedEventDocs ?t) = l_id ` set (linkedEventDocs s)"
      using ids by (metis set_map)
    have lk: "\<exists>l0 \<in> set (linkedEventDocs s). l_id l = l_id l0
        \<and> set (l_includes l) = (if l_id l0 \<in> set (linkedTo ne)
                                 then insert newId (set (l_includes l0)) else set (l_includes l0))"
      if "l \<in> set (linkedEventDocs ?t)" for l
      using that unfolding L updateMany_def by (auto simp: set_addToSet)
    show ?thesis
    proof (rule consistentI)
      show "distinct (map e_id (eventDocs ?t))"
        using c(1) 2(1,3) unfolding E by auto
      show "distinct (map l_id (linkedEventDocs ?t))"
        using c(2) ids by simp
    next
      fix d l assume d: "d \<in> set (eventDocs ?t)" "active d" and l: "l \<in> set (linkedEventDocs ?t)"
      obtain l0 where l0: "l0 \<in> set (linkedEventDocs s)" "l_id l = l_id l0"
        "set (l_includes l) = (if l_id l0 \<in> set (linkedTo ne)
                                 then insert newId (set (l_includes l0)) else set (l_includes l0))"
        using lk [OF l] by blast
      show "(e_id d \<in> set (l_includes l)) = (l_id l \<in> set (linkedTo d))"
      proof (cases "d = ne")
        case True
        have "newId \<notin> set (l_includes l0)"
          using c(5) [of l0 newId] l0(1) 2(3) by blast
        then show ?thesis using True l0 2(1) by auto
      next
        case False
        then have old: "d \<in> set (eventDocs s)" using d(1) unfolding E by simp
        then have "e_id d \<noteq> newId" using 2(3) by auto
        then show ?thesis using c(3) [of d l0] old d(2) l0 by auto
      qed
    next
      fix d x assume d: "d \<in> set (eventDocs ?t)" "active d" and x: "x \<in> set (linkedTo d)"
      show "x \<in> l_id ` set (linkedEventDocs ?t)"
      proof (cases "d = ne")
        case True
        then show ?thesis using x 2(4) idset by auto
      next
        case False
        then have "d \<in> set (eventDocs s)" using d(1) unfolding E by simp
        then show ?thesis using c(4) [of d x] d(2) x idset by auto
      qed
    next
      fix l x assume l: "l \<in> set (linkedEventDocs ?t)" and x: "x \<in> set (l_includes l)"
      obtain l0 where l0: "l0 \<in> set (linkedEventDocs s)" "l_id l = l_id l0"
        "set (l_includes l) = (if l_id l0 \<in> set (linkedTo ne)
                                 then insert newId (set (l_includes l0)) else set (l_includes l0))"
        using lk [OF l] by blast
      show "x \<in> e_id ` set (eventDocs ?t)"
        using x l0 c(5) [of l0 x] 2(1) unfolding E by (auto split: if_splits)
    qed
  qed
qed


text \<open>createEventLink keeps the invariant: no active event references the new id before.\<close>

lemma createEventLink_cases:
  "snd (createEventLink u body newId s) = s
   \<or> (\<exists>nl. l_id nl = newId \<and> newId \<notin> l_id ` set (linkedEventDocs s)
        \<and> set (l_includes nl) \<subseteq> e_id ` set (eventDocs s)
        \<and> snd (createEventLink u body newId s) =
            s\<lparr>linkedEventDocs := linkedEventDocs s @ [nl],
              eventDocs := updateMany (\<lambda>e. e_id e \<in> set (l_includes nl))
                (\<lambda>e. e\<lparr>linkedTo := addToSet newId (linkedTo e)\<rparr>) (eventDocs s)\<rparr>)"
proof -
  have "snd (createEventLink u body newId s) = s
    \<or> (\<exists>n ids. newId \<notin> l_id ` set (linkedEventDocs s)
         \<and> snd (createEventLink u body newId s) =
            s\<lparr>linkedEventDocs := linkedEventDocs s
                 @ [\<lparr>l_id = newId, l_displayName = n, l_includes = validateEventIds s ids\<rparr>],
              eventDocs := updateMany (\<lambda>e. e_id e \<in> set (validateEventIds s ids))
                (\<lambda>e. e\<lparr>linkedTo := addToSet newId (linkedTo e)\<rparr>) (eventDocs s)\<rparr>)"
  proof (cases "role u \<noteq> Guest \<and> newId \<notin> l_id ` set (linkedEventDocs s)
      \<and> (\<exists>n. b_displayName body = Some n \<and> n \<noteq> []
             \<and> find (\<lambda>l. l_displayName l = n) (linkedEventDocs s) = None)
      \<and> (\<exists>ids. b_includes body = Some ids)")
    case True
    then obtain n ids where ok: "role u \<noteq> Guest" "newId \<notin> l_id ` set (linkedEventDocs s)"
      "b_displayName body = Some n" "n \<noteq> []"
      "find (\<lambda>l. l_displayName l = n) (linkedEventDocs s) = None" "b_includes body = Some ids"
      by blast
    have "snd (createEventLink u body newId s) =
            s\<lparr>linkedEventDocs := linkedEventDocs s
                 @ [\<lparr>l_id = newId, l_displayName = n, l_includes = validateEventIds s ids\<rparr>],
              eventDocs := updateMany (\<lambda>e. e_id e \<in> set (validateEventIds s ids))
                (\<lambda>e. e\<lparr>linkedTo := addToSet newId (linkedTo e)\<rparr>) (eventDocs s)\<rparr>"
      using ok by (simp add: createEventLink_def Let_def)
    then show ?thesis using ok(2) by blast
  next
    case False
    then have "snd (createEventLink u body newId s) = s"
      by (auto simp: createEventLink_def Let_def split: option.splits)
    then show ?thesis by simp
  qed
  then consider "snd (createEventLink u body newId s) = s"
    | n ids where "newId \<notin> l_id ` set (linkedEventDocs s)"
        "snd (createEventLink u body newId s) =
            s\<lparr>linkedEventDocs := linkedEventDocs s
                 @ [\<lparr>l_id = newId, l_displayName = n, l_includes = validateEventIds s ids\<rparr>],
              eventDocs := updateMany (\<lambda>e. e_id e \<in> set (validateEventIds s ids))
                (\<lambda>e. e\<lparr>linkedTo := addToSet newId (linkedTo e)\<rparr>) (eventDocs s)\<rparr>"
    by blast
  then show ?thesis
  proof cases
    case 1
    then show ?thesis by simp
  next
    case 2
    let ?nl = "\<lparr>l_id = newId, l_displayName = n, l_includes = validateEventIds s ids\<rparr>"
    have "l_id ?nl = newId" "set (l_includes ?nl) \<subseteq> e_id ` set (eventDocs s)"
      using set_validateIds [of "map e_id (eventDocs s)" ids]
      by (simp_all add: validateEventIds_def)
    moreover have "snd (createEventLink u body newId s) =
            s\<lparr>linkedEventDocs := linkedEventDocs s @ [?nl],
              eventDocs := updateMany (\<lambda>e. e_id e \<in> set (l_includes ?nl))
                (\<lambda>e. e\<lparr>linkedTo := addToSet newId (linkedTo e)\<rparr>) (eventDocs s)\<rparr>"
      using 2(2) by simp
    ultimately show ?thesis using 2(1) by blast
  qed
qed

lemma createEventLink_consistent:
  assumes "consistent s"
  shows "consistent (snd (createEventLink u body newId s))"
proof -
  note c = consistentD [OF assms]
  consider "snd (createEventLink u body newId s) = s"
    | nl where "l_id nl = newId" "newId \<notin> l_id ` set (linkedEventDocs s)"
        "set (l_includes nl) \<subseteq> e_id ` set (eventDocs s)"
        "snd (createEventLink u body newId s) =
            s\<lparr>linkedEventDocs := linkedEventDocs s @ [nl],
              eventDocs := updateMany (\<lambda>e. e_id e \<in> set (l_includes nl))
                (\<lambda>e. e\<lparr>linkedTo := addToSet newId (linkedTo e)\<rparr>) (eventDocs s)\<rparr>"
    using createEventLink_cases [of u body newId s] by blast
  then show ?thesis
  proof cases
    case 1
    then show ?thesis using assms by simp
  next
    case 2
    let ?t = "snd (createEventLink u body newId s)"
    have L: "linkedEventDocs ?t = linkedEventDocs s @ [nl]"
      and E: "eventDocs ?t = updateMany (\<lambda>e. e_id e \<in> set (l_includes nl))
                (\<lambda>e. e\<lparr>linkedTo := addToSet newId (linkedTo e)\<rparr>) (eventDocs s)"
      using 2(4) by simp_all
    have ids: "map e_id (eventDocs ?t) = map e_id (eventDocs s)"
      by (simp add: E map_id_updateMany)
    have idset: "e_id ` set (eventDocs ?t) = e_id ` set (eventDocs s)"
      using ids by (metis set_map)
    have ev: "\<exists>d0 \<in> set (eventDocs s). e_id d = e_id d0 \<and> active d = active d0
        \<and> set (linkedTo d) = (if e_id d0 \<in> set (l_includes nl)
                               then insert newId (set (linkedTo d0)) else set (linkedTo d0))"
      if "d \<in> set (eventDocs ?t)" for d
      using that unfolding E updateMany_def by (auto simp: set_addToSet)
    show ?thesis
    proof (rule consistentI)
      show "distinct (map e_id (eventDocs ?t))"
        using c(1) ids by simp
      show "distinct (map l_id (linkedEventDocs ?t))"
        using c(2) 2(1,2) unfolding L by auto
    next
      fix d l assume d: "d \<in> set (eventDocs ?t)" "active d" and l: "l \<in> set (linkedEventDocs ?t)"
      obtain d0 where d0: "d0 \<in> set (eventDocs s)" "e_id d = e_id d0" "active d = active d0"
        "set (linkedTo d) = (if e_id d0 \<in> set (l_includes nl)
                               then insert newId (set (linkedTo d0)) else set (linkedTo d0))"
        using ev [OF d(1)] by blast
      show "(e_id d \<in> set (l_includes l)) = (l_id l \<in> set (linkedTo d))"
      proof (cases "l = nl")
        case True
        have "newId \<notin> set (linkedTo d0)"
          using c(4) [of d0 newId] d0(1,3) d(2) 2(2) by auto
        then show ?thesis using True d0 2(1) by auto
      next
        case False
        then have old: "l \<in> set (linkedEventDocs s)" using l unfolding L by simp
        then have "l_id l \<noteq> newId" using 2(2) by auto
        then show ?thesis using c(3) [of d0 l] old d0 d(2) by auto
      qed
    next
      fix d x assume d: "d \<in> set (eventDocs ?t)" "active d" and x: "x \<in> set (linkedTo d)"
      obtain d0 where d0: "d0 \<in> set (eventDocs s)" "e_id d = e_id d0" "active d = active d0"
        "set (linkedTo d) = (if e_id d0 \<in> set (l_includes nl)
                               then insert newId (set (linkedTo d0)) else set (linkedTo d0))"
        using ev [OF d(1)] by blast
      show "x \<in> l_id ` set (linkedEventDocs ?t)"
        using x d0 d(2) c(4) [of d0 x] 2(1) unfolding L by (auto split: if_splits)
    next
      fix l x assume l: "l \<in> set (linkedEventDocs ?t)" and x: "x \<in> set (l_includes l)"
      show "x \<in> e_id ` set (eventDocs ?t)"
      proof (cases "l = nl")
        case True
        then show ?thesis using x 2(3) idset by auto
      next
        case False
        then have "l \<in> set (linkedEventDocs s)" using l unfolding L by simp
        then show ?thesis using c(5) [of l x] x idset by auto
      qed
    qed
  qed
qed

text \<open>
  What the mirror step needs of the delta: the added ids are new references and include
  every reference that is new, and the removed ids are the references dropped. It holds
  whenever a document's own array compares ids through their hex form.
\<close>

lemma delta_sound:
  assumes "storedIncludes k = CastToString"
  shows "idToString ` set (addedIds k current validated)
           \<subseteq> set (case validated of None \<Rightarrow> current | Some new \<Rightarrow> new)"
    and "set (case validated of None \<Rightarrow> current | Some new \<Rightarrow> new) - set current
           \<subseteq> idToString ` set (addedIds k current validated)"
    and "idToString ` set (removedIds k current validated)
           = set current - set (case validated of None \<Rightarrow> current | Some new \<Rightarrow> new)"
proof -
  show "idToString ` set (addedIds k current validated)
           \<subseteq> set (case validated of None \<Rightarrow> current | Some new \<Rightarrow> new)"
    by (cases validated) (auto simp: delta_supplied_sets addedIds_def newRefs_def)
  show "set (case validated of None \<Rightarrow> current | Some new \<Rightarrow> new) - set current
           \<subseteq> idToString ` set (addedIds k current validated)"
    by (cases validated) (auto simp: delta_supplied_sets)
  show "idToString ` set (removedIds k current validated)
           = set current - set (case validated of None \<Rightarrow> current | Some new \<Rightarrow> new)"
    using assms by (cases validated) (auto simp: delta_supplied_sets delta_absent_casting)
qed

lemma in_mirrorIncludes:
  assumes "l \<in> set (mirrorIncludes added removed eventId docs)"
  shows "\<exists>l0 \<in> set docs. l_id l = l_id l0
    \<and> (eventId \<in> set (l_includes l))
        = (l_id l0 \<notin> idToString ` set removed
           \<and> (l_id l0 \<in> idToString ` set added \<or> eventId \<in> set (l_includes l0)))
    \<and> (\<forall>x. x \<noteq> eventId \<longrightarrow> (x \<in> set (l_includes l)) = (x \<in> set (l_includes l0)))"
proof -
  let ?add = "\<lambda>x. if l_id x \<in> set (map idToString added)
                  then x\<lparr>l_includes := addToSet eventId (l_includes x)\<rparr> else x"
  let ?pull = "\<lambda>x. if l_id x \<in> set (map idToString removed)
                  then x\<lparr>l_includes := pull eventId (l_includes x)\<rparr> else x"
  obtain l0 where l0: "l0 \<in> set docs" "l = ?pull (?add l0)"
    using assms unfolding mirrorIncludes_def updateMany_def by auto
  have "l_id l = l_id l0
    \<and> (eventId \<in> set (l_includes l))
        = (l_id l0 \<notin> idToString ` set removed
           \<and> (l_id l0 \<in> idToString ` set added \<or> eventId \<in> set (l_includes l0)))
    \<and> (\<forall>x. x \<noteq> eventId \<longrightarrow> (x \<in> set (l_includes l)) = (x \<in> set (l_includes l0)))"
    unfolding l0(2) by (simp add: set_addToSet set_pull)
  then show ?thesis using l0(1) by blast
qed

lemma in_mirrorLinkedTo:
  assumes "e \<in> set (mirrorLinkedTo added removed linkId docs)"
  shows "\<exists>e0 \<in> set docs. e_id e = e_id e0 \<and> active e = active e0
    \<and> (linkId \<in> set (linkedTo e))
        = (e_id e0 \<notin> idToString ` set removed
           \<and> (e_id e0 \<in> idToString ` set added \<or> linkId \<in> set (linkedTo e0)))
    \<and> (\<forall>x. x \<noteq> linkId \<longrightarrow> (x \<in> set (linkedTo e)) = (x \<in> set (linkedTo e0)))"
proof -
  let ?add = "\<lambda>x. if e_id x \<in> set (map idToString added)
                  then x\<lparr>linkedTo := addToSet linkId (linkedTo x)\<rparr> else x"
  let ?pull = "\<lambda>x. if e_id x \<in> set (map idToString removed)
                  then x\<lparr>linkedTo := pull linkId (linkedTo x)\<rparr> else x"
  obtain e0 where e0: "e0 \<in> set docs" "e = ?pull (?add e0)"
    using assms unfolding mirrorLinkedTo_def updateMany_def by auto
  have "e_id e = e_id e0 \<and> active e = active e0
    \<and> (linkId \<in> set (linkedTo e))
        = (e_id e0 \<notin> idToString ` set removed
           \<and> (e_id e0 \<in> idToString ` set added \<or> linkId \<in> set (linkedTo e0)))
    \<and> (\<forall>x. x \<noteq> linkId \<longrightarrow> (x \<in> set (linkedTo e)) = (x \<in> set (linkedTo e0)))"
    unfolding e0(2) by (simp add: set_addToSet set_pull)
  then show ?thesis using e0(1) by blast
qed

lemma map_l_id_mirrorIncludes: "map l_id (mirrorIncludes added removed eventId docs) = map l_id docs"
  by (simp add: mirrorIncludes_def updateMany_def comp_def)

lemma map_e_id_mirrorLinkedTo: "map e_id (mirrorLinkedTo added removed linkId docs) = map e_id docs"
  by (simp add: mirrorLinkedTo_def updateMany_def comp_def)


text \<open>updateEvent keeps the invariant.\<close>

lemma setEventFields_facts:
  "e_id (setEventFields body clubs links ownerOk e) = e_id e"
  "active (setEventFields body clubs links ownerOk e) = active e"
  "linkedTo (setEventFields body clubs links ownerOk e)
     = (case links of None \<Rightarrow> linkedTo e | Some ls \<Rightarrow> ls)"
  by (simp_all add: setEventFields_def)

lemma updateEvent_cases:
  "snd (updateEvent k castOk u eventid body s) = s
   \<or> (\<exists>e0 e0' validated. e0 \<in> set (eventDocs s) \<and> e_id e0 = eventid \<and> e_id e0' = eventid
        \<and> active e0' = active e0
        \<and> linkedTo e0' = (case validated of None \<Rightarrow> linkedTo e0 | Some new \<Rightarrow> new)
        \<and> (\<forall>new. validated = Some new \<longrightarrow> set new \<subseteq> l_id ` set (linkedEventDocs s))
        \<and> snd (updateEvent k castOk u eventid body s) =
            s\<lparr>eventDocs := replaceEvent e0' (eventDocs s),
              linkedEventDocs :=
                mirrorIncludes (addedIds k (linkedTo e0) validated)
                  (removedIds k (linkedTo e0) validated) eventid (linkedEventDocs s)\<rparr>)"
proof (cases "updateRequestError u eventid body s")
  case (Some err)
  then show ?thesis by (simp add: updateEvent_def)
next
  case None
  show ?thesis
  proof (cases "find (\<lambda>e. e_id e = eventid) (eventDocs s)")
    case noEvent: None
    then show ?thesis using None by (simp add: updateEvent_def)
  next
    case (Some e0)
    have e0: "e0 \<in> set (eventDocs s)" "e_id e0 = eventid"
      using find_SomeD [OF Some] by simp_all
    let ?clubs = "map_option (validateClubIds s) (b_organisedBy body)"
    let ?links = "map_option (validateLinkedEventIds s) (b_linkedTo body)"
    let ?ownerOk = "truthy (b_owner body) \<and> role u = Admin
        \<and> validateUserId s (case b_owner body of None \<Rightarrow> [] | Some w \<Rightarrow> w)"
    let ?e0' = "setEventFields body ?clubs ?links ?ownerOk e0"
    have valid: "\<forall>new. ?links = Some new \<longrightarrow> set new \<subseteq> l_id ` set (linkedEventDocs s)"
      using set_validateIds [of "map l_id (linkedEventDocs s)"]
      by (auto simp: validateLinkedEventIds_def)
    have "snd (updateEvent k castOk u eventid body s) = s
      \<or> snd (updateEvent k castOk u eventid body s) =
            s\<lparr>eventDocs := replaceEvent ?e0' (eventDocs s),
              linkedEventDocs :=
                mirrorIncludes (addedIds k (linkedTo e0) ?links)
                  (removedIds k (linkedTo e0) ?links) eventid (linkedEventDocs s)\<rparr>"
      using None Some e0(2) by (simp add: updateEvent_def Let_def setEventFields_facts)
    then show ?thesis
      using e0 valid setEventFields_facts [of body ?clubs ?links ?ownerOk e0] by blast
  qed
qed

lemma updateEvent_consistent:
  assumes "consistent s" and cast: "storedIncludes k = CastToString"
  shows "consistent (snd (updateEvent k castOk u eventid body s))"
proof -
  note c = consistentD [OF assms(1)]
  consider "snd (updateEvent k castOk u eventid body s) = s"
    | e0 e0' validated where "e0 \<in> set (eventDocs s)" "e_id e0 = eventid" "e_id e0' = eventid"
        "active e0' = active e0"
        "linkedTo e0' = (case validated of None \<Rightarrow> linkedTo e0 | Some new \<Rightarrow> new)"
        "\<forall>new. validated = Some new \<longrightarrow> set new \<subseteq> l_id ` set (linkedEventDocs s)"
        "snd (updateEvent k castOk u eventid body s) =
            s\<lparr>eventDocs := replaceEvent e0' (eventDocs s),
              linkedEventDocs :=
                mirrorIncludes (addedIds k (linkedTo e0) validated)
                  (removedIds k (linkedTo e0) validated) eventid (linkedEventDocs s)\<rparr>"
    using updateEvent_cases [of k castOk u eventid body s] by blast
  then show ?thesis
  proof cases
    case 1
    then show ?thesis using assms by simp
  next
    case 2
    let ?t = "snd (updateEvent k castOk u eventid body s)"
    let ?A = "idToString ` set (addedIds k (linkedTo e0) validated)"
    let ?R = "idToString ` set (removedIds k (linkedTo e0) validated)"
    let ?new = "case validated of None \<Rightarrow> linkedTo e0 | Some new \<Rightarrow> new"
    note delta = delta_sound [OF cast, of "linkedTo e0" validated]
    have E: "eventDocs ?t = replaceEvent e0' (eventDocs s)"
      and L: "linkedEventDocs ?t = mirrorIncludes (addedIds k (linkedTo e0) validated)
                  (removedIds k (linkedTo e0) validated) eventid (linkedEventDocs s)"
      using 2(7) by simp_all
    have ids: "map e_id (eventDocs ?t) = map e_id (eventDocs s)"
      "map l_id (linkedEventDocs ?t) = map l_id (linkedEventDocs s)"
      by (simp_all add: E L map_e_id_replaceEvent map_l_id_mirrorIncludes)
    have idsets: "e_id ` set (eventDocs ?t) = e_id ` set (eventDocs s)"
      "l_id ` set (linkedEventDocs ?t) = l_id ` set (linkedEventDocs s)"
      using ids by (metis set_map)+
    have ev: "(d = e0' \<and> e_id d = eventid) \<or> (d \<in> set (eventDocs s) \<and> e_id d \<noteq> eventid)"
      if "d \<in> set (eventDocs ?t)" for d
      using that in_replaceEvent [of d e0' "eventDocs s"] 2(3) unfolding E
      by (auto split: if_splits)
    have lk: "\<exists>l0 \<in> set (linkedEventDocs s). l_id l = l_id l0
        \<and> (eventid \<in> set (l_includes l)) = (l_id l0 \<notin> ?R \<and> (l_id l0 \<in> ?A \<or> eventid \<in> set (l_includes l0)))
        \<and> (\<forall>x. x \<noteq> eventid \<longrightarrow> (x \<in> set (l_includes l)) = (x \<in> set (l_includes l0)))"
      if "l \<in> set (linkedEventDocs ?t)" for l
      using in_mirrorIncludes [OF that [unfolded L]] .
    show ?thesis
    proof (rule consistentI)
      show "distinct (map e_id (eventDocs ?t))" "distinct (map l_id (linkedEventDocs ?t))"
        using c(1,2) ids by simp_all
    next
      fix d l assume d: "d \<in> set (eventDocs ?t)" "active d" and l: "l \<in> set (linkedEventDocs ?t)"
      obtain l0 where l0: "l0 \<in> set (linkedEventDocs s)" "l_id l = l_id l0"
        "(eventid \<in> set (l_includes l)) = (l_id l0 \<notin> ?R \<and> (l_id l0 \<in> ?A \<or> eventid \<in> set (l_includes l0)))"
        "\<forall>x. x \<noteq> eventid \<longrightarrow> (x \<in> set (l_includes l)) = (x \<in> set (l_includes l0))"
        using lk [OF l] by blast
      show "(e_id d \<in> set (l_includes l)) = (l_id l \<in> set (linkedTo d))"
      proof (cases "d = e0' \<and> e_id d = eventid")
        case True
        then have act: "active e0" using d(2) 2(4) by simp
        have sym: "(eventid \<in> set (l_includes l0)) = (l_id l0 \<in> set (linkedTo e0))"
          using c(3) [OF 2(1) act l0(1)] 2(2) by simp
        have "(eventid \<in> set (l_includes l)) = (l_id l0 \<in> set ?new)"
          unfolding l0(3) sym using delta by blast
        then show ?thesis using True l0(2) 2(3,5) by auto
      next
        case False
        then have old: "d \<in> set (eventDocs s)" "e_id d \<noteq> eventid"
          using ev [OF d(1)] by auto
        then show ?thesis using c(3) [OF old(1) d(2) l0(1)] l0(2,4) by simp
      qed
    next
      fix d x assume d: "d \<in> set (eventDocs ?t)" "active d" and x: "x \<in> set (linkedTo d)"
      show "x \<in> l_id ` set (linkedEventDocs ?t)"
      proof (cases "d = e0' \<and> e_id d = eventid")
        case True
        then have act: "active e0" using d(2) 2(4) by simp
        have "x \<in> set ?new" using x True 2(5) by simp
        then have "x \<in> l_id ` set (linkedEventDocs s)"
          using c(4) [OF 2(1) act, of x] 2(6) by (cases validated) auto
        then show ?thesis using idsets by simp
      next
        case False
        then have "d \<in> set (eventDocs s)" using ev [OF d(1)] by auto
        then show ?thesis using c(4) [of d x] d(2) x idsets by simp
      qed
    next
      fix l x assume l: "l \<in> set (linkedEventDocs ?t)" and x: "x \<in> set (l_includes l)"
      obtain l0 where l0: "l0 \<in> set (linkedEventDocs s)"
        "\<forall>x. x \<noteq> eventid \<longrightarrow> (x \<in> set (l_includes l)) = (x \<in> set (l_includes l0))"
        using lk [OF l] by blast
      show "x \<in> e_id ` set (eventDocs ?t)"
      proof (cases "x = eventid")
        case True
        then show ?thesis using 2(1,2) idsets by auto
      next
        case False
        then show ?thesis using x l0 c(5) [of l0 x] idsets by simp
      qed
    qed
  qed
qed

text \<open>updateEventLink keeps the invariant.\<close>

lemma updateEventLink_cases:
  "snd (updateEventLink k u eventlinkid body s) = s
   \<or> (\<exists>l0 l0' validated. l0 \<in> set (linkedEventDocs s) \<and> l_id l0 = eventlinkid \<and> l_id l0' = eventlinkid
        \<and> l_includes l0' = (case validated of None \<Rightarrow> l_includes l0 | Some new \<Rightarrow> new)
        \<and> (\<forall>new. validated = Some new \<longrightarrow> set new \<subseteq> e_id ` set (eventDocs s))
        \<and> snd (updateEventLink k u eventlinkid body s) =
            s\<lparr>linkedEventDocs := replaceLinkedEvent l0' (linkedEventDocs s),
              eventDocs :=
                mirrorLinkedTo (addedIds k (l_includes l0) validated)
                  (removedIds k (l_includes l0) validated) eventlinkid (eventDocs s)\<rparr>)"
proof (cases "find (\<lambda>l. l_id l = eventlinkid) (linkedEventDocs s)")
  case None
  then show ?thesis by (simp add: updateEventLink_def)
next
  case (Some l0)
  have l0: "l0 \<in> set (linkedEventDocs s)" "l_id l0 = eventlinkid"
    using find_SomeD [OF Some] by simp_all
  let ?newName = "if truthy (b_displayName body) \<and> b_displayName body \<noteq> Some (l_displayName l0)
                  then b_displayName body else None"
  let ?ids = "map_option (validateEventIds s) (b_includes body)"
  let ?l0' = "l0\<lparr>l_displayName := (case ?newName of None \<Rightarrow> l_displayName l0 | Some n \<Rightarrow> n),
                 l_includes := (case ?ids of None \<Rightarrow> l_includes l0 | Some ids \<Rightarrow> ids)\<rparr>"
  have valid: "\<forall>new. ?ids = Some new \<longrightarrow> set new \<subseteq> e_id ` set (eventDocs s)"
    using set_validateIds [of "map e_id (eventDocs s)"]
    by (auto simp: validateEventIds_def)
  have "snd (updateEventLink k u eventlinkid body s) = s
    \<or> snd (updateEventLink k u eventlinkid body s) =
            s\<lparr>linkedEventDocs := replaceLinkedEvent ?l0' (linkedEventDocs s),
              eventDocs :=
                mirrorLinkedTo (addedIds k (l_includes l0) ?ids)
                  (removedIds k (l_includes l0) ?ids) eventlinkid (eventDocs s)\<rparr>"
    using Some l0(2) by (simp add: updateEventLink_def Let_def)
  moreover have "l_id ?l0' = eventlinkid"
    "l_includes ?l0' = (case ?ids of None \<Rightarrow> l_includes l0 | Some new \<Rightarrow> new)"
    using l0(2) by simp_all
  ultimately show ?thesis using l0 valid by blast
qed

lemma updateEventLink_consistent:
  assumes "consistent s" and cast: "storedIncludes k = CastToString"
  shows "consistent (snd (updateEventLink k u eventlinkid body s))"
proof -
  note c = consistentD [OF assms(1)]
  consider "snd (updateEventLink k u eventlinkid body s) = s"
    | l0 l0' validated where "l0 \<in> set (linkedEventDocs s)" "l_id l0 = eventlinkid"
        "l_id l0' = eventlinkid"
        "l_includes l0' = (case validated of None \<Rightarrow> l_includes l0 | Some new \<Rightarrow> new)"
        "\<forall>new. validated = Some new \<longrightarrow> set new \<subseteq> e_id ` set (eventDocs s)"
        "snd (updateEventLink k u eventlinkid body s) =
            s\<lparr>linkedEventDocs := replaceLinkedEvent l0' (linkedEventDocs s),
              eventDocs :=
                mirrorLinkedTo (addedIds k (l_includes l0) validated)
                  (removedIds k (l_includes l0) validated) eventlinkid (eventDocs s)\<rparr>"
    using updateEventLink_cases [of k u eventlinkid body s] by blast
  then show ?thesis
  proof cases
    case 1
    then show ?thesis using assms by simp
  next
    case 2
    let ?t = "snd (updateEventLink k u eventlinkid body s)"
    let ?A = "idToString ` set (addedIds k (l_includes l0) validated)"
    let ?R = "idToString ` set (removedIds k (l_includes l0) validated)"
    let ?new = "case validated of None \<Rightarrow> l_includes l0 | Some new \<Rightarrow> new"
    note delta = delta_sound [OF cast, of "l_includes l0" validated]
    have L: "linkedEventDocs ?t = replaceLinkedEvent l0' (linkedEventDocs s)"
      and E: "eventDocs ?t = mirrorLinkedTo (addedIds k (l_includes l0) validated)
                  (removedIds k (l_includes l0) validated) eventlinkid (eventDocs s)"
      using 2(6) by simp_all
    have ids: "map e_id (eventDocs ?t) = map e_id (eventDocs s)"
      "map l_id (linkedEventDocs ?t) = map l_id (linkedEventDocs s)"
      by (simp_all add: E L map_e_id_mirrorLinkedTo map_l_id_replaceLinkedEvent)
    have idsets: "e_id ` set (eventDocs ?t) = e_id ` set (eventDocs s)"
      "l_id ` set (linkedEventDocs ?t) = l_id ` set (linkedEventDocs s)"
      using ids by (metis set_map)+
    have lk: "(l = l0' \<and> l_id l = eventlinkid) \<or> (l \<in> set (linkedEventDocs s) \<and> l_id l \<noteq> eventlinkid)"
      if "l \<in> set (linkedEventDocs ?t)" for l
      using that in_replaceLinkedEvent [of l l0' "linkedEventDocs s"] 2(3) unfolding L
      by (auto split: if_splits)
    have ev: "\<exists>d0 \<in> set (eventDocs s). e_id d = e_id d0 \<and> active d = active d0
        \<and> (eventlinkid \<in> set (linkedTo d))
            = (e_id d0 \<notin> ?R \<and> (e_id d0 \<in> ?A \<or> eventlinkid \<in> set (linkedTo d0)))
        \<and> (\<forall>x. x \<noteq> eventlinkid \<longrightarrow> (x \<in> set (linkedTo d)) = (x \<in> set (linkedTo d0)))"
      if "d \<in> set (eventDocs ?t)" for d
      using in_mirrorLinkedTo [OF that [unfolded E]] .
    show ?thesis
    proof (rule consistentI)
      show "distinct (map e_id (eventDocs ?t))" "distinct (map l_id (linkedEventDocs ?t))"
        using c(1,2) ids by simp_all
    next
      fix d l assume d: "d \<in> set (eventDocs ?t)" "active d" and l: "l \<in> set (linkedEventDocs ?t)"
      obtain d0 where d0: "d0 \<in> set (eventDocs s)" "e_id d = e_id d0" "active d = active d0"
        "(eventlinkid \<in> set (linkedTo d))
            = (e_id d0 \<notin> ?R \<and> (e_id d0 \<in> ?A \<or> eventlinkid \<in> set (linkedTo d0)))"
        "\<forall>x. x \<noteq> eventlinkid \<longrightarrow> (x \<in> set (linkedTo d)) = (x \<in> set (linkedTo d0))"
        using ev [OF d(1)] by blast
      have act: "active d0" using d(2) d0(3) by simp
      show "(e_id d \<in> set (l_includes l)) = (l_id l \<in> set (linkedTo d))"
      proof (cases "l = l0' \<and> l_id l = eventlinkid")
        case True
        have sym: "(e_id d0 \<in> set (l_includes l0)) = (eventlinkid \<in> set (linkedTo d0))"
          using c(3) [OF d0(1) act 2(1)] 2(2) by simp
        have "(eventlinkid \<in> set (linkedTo d)) = (e_id d0 \<in> set ?new)"
          unfolding d0(4) sym [symmetric] using delta by blast
        then show ?thesis using True d0(2) 2(3,4) by auto
      next
        case False
        then have old: "l \<in> set (linkedEventDocs s)" "l_id l \<noteq> eventlinkid"
          using lk [OF l] by auto
        then show ?thesis using c(3) [OF d0(1) act old(1)] d0(2,5) by simp
      qed
    next
      fix d x assume d: "d \<in> set (eventDocs ?t)" "active d" and x: "x \<in> set (linkedTo d)"
      obtain d0 where d0: "d0 \<in> set (eventDocs s)" "active d = active d0"
        "\<forall>x. x \<noteq> eventlinkid \<longrightarrow> (x \<in> set (linkedTo d)) = (x \<in> set (linkedTo d0))"
        using ev [OF d(1)] by blast
      show "x \<in> l_id ` set (linkedEventDocs ?t)"
      proof (cases "x = eventlinkid")
        case True
        then show ?thesis using 2(1,2) idsets by auto
      next
        case False
        then show ?thesis using x d0 d(2) c(4) [of d0 x] idsets by simp
      qed
    next
      fix l x assume l: "l \<in> set (linkedEventDocs ?t)" and x: "x \<in> set (l_includes l)"
      show "x \<in> e_id ` set (eventDocs ?t)"
      proof (cases "l = l0' \<and> l_id l = eventlinkid")
        case True
        then have "x \<in> set ?new" using x 2(4) by simp
        then have "x \<in> e_id ` set (eventDocs s)"
          using c(5) [OF 2(1), of x] 2(5) by (cases validated) auto
        then show ?thesis using idsets by simp
      next
        case False
        then have "l \<in> set (linkedEventDocs s)" using lk [OF l] by auto
        then show ?thesis using c(5) [of l x] x idsets by simp
      qed
    qed
  qed
qed


text \<open>Every operation keeps the invariant, and so does every sequence of operations.\<close>

lemma perform_consistent:
  assumes "consistent s" and "storedIncludes k = CastToString"
  shows "consistent (perform k q schemaOk castOk op s)"
  using assms
  by (cases op)
     (simp_all add: createEvent_consistent createEventLink_consistent updateEvent_consistent
        updateEventLink_consistent deleteEvent_consistent deleteEventLink_consistent)

lemma symmetric_consistent:
  assumes "referenceGraphSymmetric s"
    and "distinct (map e_id (eventDocs s))" and "distinct (map l_id (linkedEventDocs s))"
  shows "consistent s"
  using assms unfolding referenceGraphSymmetric_def consistent_def by blast

text \<open>
  Claim C4, as amended. Starting from a store with unique ids in which every active event
  and every linked event reference each other or neither does and no reference of an
  active event or of a linked event dangles, the same holds after every finite sequence
  of create, update and delete requests on events and linked events, whatever their
  outcome. It is proved for a mapper whose document arrays compare ids through their hex
  form in \<open>includes\<close>. Nothing is claimed for a soft-deleted event, which keeps its own
  \<open>linkedTo\<close>, nor about repeated references.
\<close>

theorem reference_graph_invariant:
  assumes "consistent s" and "storedIncludes k = CastToString"
  shows "consistent (performAll k q schemaOk castOk ops s)"
  using assms(1) unfolding performAll_def
proof (induction ops arbitrary: s)
  case Nil
  then show ?case by simp
next
  case (Cons op ops)
  have "consistent (perform k q schemaOk castOk op s)"
    using perform_consistent [OF Cons.prems assms(2)] .
  then show ?case using Cons.IH by simp
qed

text \<open>
  Sample runs: an event is linked and then deleted by its owner; an event is created
  with the same linked event named twice; an event is linked by an update of the event
  and unlinked by an update of the linked event.
\<close>

lemma sample_link_then_delete:
  "performAll \<lparr>mappedIncludes = SameValueZero, storedIncludes = CastToString\<rparr> True (\<lambda>e. True) (\<lambda>b. True)
     [CreateEventLink (requester Standard userA) \<lparr>b_displayName = Some ''Cup'', b_includes = Some [eventA]\<rparr> linkA,
      DeleteEvent sampleNow (requester Standard userA) eventA]
     (sampleStore [sampleEvent eventA userA ''Spring Cup'' [] [] True] [])
   = sampleStore [sampleEvent eventA userA ''Spring Cup deleted:03112019@0905'' [linkA] [] False]
       [sampleLink linkA ''Cup'' []]"
proof -
  let ?s0 = "sampleStore [sampleEvent eventA userA ''Spring Cup'' [] [] True] []"
  let ?s1 = "sampleStore [sampleEvent eventA userA ''Spring Cup'' [linkA] [] True]
       [sampleLink linkA ''Cup'' [eventA]]"
  have 1: "snd (createEventLink (requester Standard userA)
      \<lparr>b_displayName = Some ''Cup'', b_includes = Some [eventA]\<rparr> linkA ?s0) = ?s1"
    by (simp add: createEventLink_def Let_def validateEventIds_def validateIds_def
        isValidObjectID_def isHexDigit_def store_sample_defs updateMany_def addToSet_def)
  have found: "find (\<lambda>d. e_id d = eventA) (eventDocs ?s1)
      = Some (sampleEvent eventA userA ''Spring Cup'' [linkA] [] True)"
    by (simp add: store_sample_defs)
  have 2: "snd (deleteEvent sampleNow (requester Standard userA) eventA ?s1)
      = sampleStore [sampleEvent eventA userA ''Spring Cup deleted:03112019@0905'' [linkA] [] False]
          [sampleLink linkA ''Cup'' []]"
    using found isValid_samples(1)
    by (simp add: deleteEvent_def Let_def deletedAt_sample taggedOrisId_def)
       (simp add: store_sample_defs replaceEvent_def updateMany_def pull_def)
  show ?thesis
    by (simp add: performAll_def 1 2)
qed

lemma sample_duplicate_reference:
  "performAll \<lparr>mappedIncludes = SameValueZero, storedIncludes = CastToString\<rparr> True (\<lambda>e. True) (\<lambda>b. True)
     [CreateEvent (requester Standard userA)
        (emptyBody\<lparr>b_date := Some ''2019-05-01'', b_name := Some ''Spring Cup'',
                   b_linkedTo := Some [linkA, linkA]\<rparr>) eventA]
     (sampleStore [] [sampleLink linkA ''Cup'' []])
   = sampleStore [sampleEvent eventA userA ''Spring Cup'' [linkA, linkA] [] True]
       [sampleLink linkA ''Cup'' [eventA]]"
proof -
  let ?s0 = "sampleStore [] [sampleLink linkA ''Cup'' []]"
  let ?b = "emptyBody\<lparr>b_date := Some ''2019-05-01'', b_name := Some ''Spring Cup'',
                   b_linkedTo := Some [linkA, linkA]\<rparr>"
  have "snd (createEvent True (\<lambda>e. True) (requester Standard userA) ?b eventA ?s0)
      = sampleStore [sampleEvent eventA userA ''Spring Cup'' [linkA, linkA] [] True]
          [sampleLink linkA ''Cup'' [eventA]]"
    by (simp add: createEvent_def Let_def eventToCreate_def saveRejected_def truthy_def
        nameInQuery_def trim_def isSpace_def validateLinkedEventIds_def validateClubIds_def validateIds_def whitelisted_def
        isValidObjectID_def isHexDigit_def monthDay_def day29_def day31_def isDigit_def
        store_sample_defs updateMany_def addToSet_def)
  then show ?thesis by (simp add: performAll_def)
qed

lemma sample_link_and_unlink_by_update:
  "performAll \<lparr>mappedIncludes = SameValueZero, storedIncludes = CastToString\<rparr> True (\<lambda>e. True) (\<lambda>b. True)
     [UpdateEvent (requester Standard userA) eventA (emptyBody\<lparr>b_linkedTo := Some [linkA]\<rparr>)]
     (sampleStore [sampleEvent eventA userA ''Spring Cup'' [] [] True] [sampleLink linkA ''Cup'' []])
   = sampleStore [sampleEvent eventA userA ''Spring Cup'' [linkA] [] True] [sampleLink linkA ''Cup'' [eventA]]"
  "performAll \<lparr>mappedIncludes = SameValueZero, storedIncludes = CastToString\<rparr> True (\<lambda>e. True) (\<lambda>b. True)
     [UpdateEventLink (requester Standard userA) linkA \<lparr>b_displayName = None, b_includes = Some []\<rparr>]
     (sampleStore [sampleEvent eventA userA ''Spring Cup'' [linkA] [] True] [sampleLink linkA ''Cup'' [eventA]])
   = sampleStore [sampleEvent eventA userA ''Spring Cup'' [] [] True] [sampleLink linkA ''Cup'' []]"
  by (simp_all add: performAll_def updateEvent_def updateRequestError_def allowedToUpdate_def
      addedIds_def removedIds_def newRefs_def newRefsSem_def currentStrings_def
      numberOfEventFields_def countIf_def setEventFields_def whitelisted_def replaceEvent_def
      mirrorIncludes_def updateMany_def truthy_def addToSet_def pull_def
      validateLinkedEventIds_def validateClubIds_def validateIds_def isValidObjectID_def
      isHexDigit_def updateEventLink_def mirrorLinkedTo_def replaceLinkedEvent_def
      validateEventIds_def store_sample_defs Let_def)

text \<open>The invariant at the start and at the end of the sample runs.\<close>

theorem reference_graph_invariant_witness:
  "consistent (sampleStore [sampleEvent eventA userA ''Spring Cup'' [] [] True] [])
   \<and> consistent (sampleStore [sampleEvent eventA userA ''Spring Cup deleted:03112019@0905'' [linkA] [] False]
       [sampleLink linkA ''Cup'' []])
   \<and> consistent (sampleStore [sampleEvent eventA userA ''Spring Cup'' [linkA, linkA] [] True]
       [sampleLink linkA ''Cup'' [eventA]])
   \<and> consistent (sampleStore [sampleEvent eventA userA ''Spring Cup'' [linkA] [] True]
       [sampleLink linkA ''Cup'' [eventA]])
   \<and> consistent (sampleStore [sampleEvent eventA userA ''Spring Cup'' [] [] True]
       [sampleLink linkA ''Cup'' []])"
proof -
  let ?k = "\<lparr>mappedIncludes = SameValueZero, storedIncludes = CastToString\<rparr>"
  have k: "storedIncludes ?k = CastToString" by simp
  have s0: "consistent (sampleStore [sampleEvent eventA userA ''Spring Cup'' [] [] True] [])"
    "consistent (sampleStore [] [sampleLink linkA ''Cup'' []])"
    "consistent (sampleStore [sampleEvent eventA userA ''Spring Cup'' [] [] True] [sampleLink linkA ''Cup'' []])"
    by (simp_all add: consistent_def store_sample_defs)
  have linked: "consistent (sampleStore [sampleEvent eventA userA ''Spring Cup'' [linkA] [] True]
       [sampleLink linkA ''Cup'' [eventA]])"
    using reference_graph_invariant [OF s0(3) k, of True "\<lambda>e. True" "\<lambda>b. True"
        "[UpdateEvent (requester Standard userA) eventA (emptyBody\<lparr>b_linkedTo := Some [linkA]\<rparr>)]"]
    unfolding sample_link_and_unlink_by_update .
  have unlinked: "consistent (sampleStore [sampleEvent eventA userA ''Spring Cup'' [] [] True]
       [sampleLink linkA ''Cup'' []])"
    using reference_graph_invariant [OF linked k, of True "\<lambda>e. True" "\<lambda>b. True"
        "[UpdateEventLink (requester Standard userA) linkA \<lparr>b_displayName = None, b_includes = Some []\<rparr>]"]
    unfolding sample_link_and_unlink_by_update .
  show ?thesis
    using s0(1) linked unlinked
      reference_graph_invariant [OF s0(1) k, of True "\<lambda>e. True" "\<lambda>b. True"
        "[CreateEventLink (requester Standard userA) \<lparr>b_displayName = Some ''Cup'', b_includes = Some [eventA]\<rparr> linkA,
          DeleteEvent sampleNow (requester Standard userA) eventA]"]
      reference_graph_invariant [OF s0(2) k, of True "\<lambda>e. True" "\<lambda>b. True"
        "[CreateEvent (requester Standard userA)
            (emptyBody\<lparr>b_date := Some ''2019-05-01'', b_name := Some ''Spring Cup'',
                       b_linkedTo := Some [linkA, linkA]\<rparr>) eventA]"]
    unfolding sample_link_then_delete sample_duplicate_reference by simp
qed

text \<open>
  Claim C4 as stated fails on both runs: after the delete the event still references the
  linked event, which no longer includes it; after the create the event holds the
  reference twice.
\<close>

theorem reference_graph_symmetry_counterexample:
  "referenceGraphSymmetric (sampleStore [sampleEvent eventA userA ''Spring Cup'' [] [] True] [])
   \<and> \<not> referenceGraphSymmetric
        (performAll \<lparr>mappedIncludes = SameValueZero, storedIncludes = CastToString\<rparr> True (\<lambda>e. True) (\<lambda>b. True)
           [CreateEventLink (requester Standard userA) \<lparr>b_displayName = Some ''Cup'', b_includes = Some [eventA]\<rparr> linkA,
            DeleteEvent sampleNow (requester Standard userA) eventA]
           (sampleStore [sampleEvent eventA userA ''Spring Cup'' [] [] True] []))
   \<and> referenceGraphSymmetric (sampleStore [] [sampleLink linkA ''Cup'' []])
   \<and> \<not> referenceGraphSymmetric
        (performAll \<lparr>mappedIncludes = SameValueZero, storedIncludes = CastToString\<rparr> True (\<lambda>e. True) (\<lambda>b. True)
           [CreateEvent (requester Standard userA)
              (emptyBody\<lparr>b_date := Some ''2019-05-01'', b_name := Some ''Spring Cup'',
                         b_linkedTo := Some [linkA, linkA]\<rparr>) eventA]
           (sampleStore [] [sampleLink linkA ''Cup'' []]))"
  unfolding sample_link_then_delete sample_duplicate_reference
  by (simp add: referenceGraphSymmetric_def store_sample_defs)

end
